theory Spec2Isabelle
  imports Complex_Main
begin

section \<open>Floating-point values\<close>

text \<open>
  The program computes with NumPy float64 values. A value is modelled as a real number
  or one of the three special values of IEEE 754. Finite arithmetic is exact (rounding
  and overflow are not modelled, and the two zeros are one value); the special values
  follow IEEE 754, which is what NumPy does: it warns and goes on, it does not raise.
  Since a float64 operation on finite operands can overflow, a statement that a computed
  value is finite, or that a product with zero vanishes, carries bounds on the magnitudes
  of its operands under which the float64 computation does not overflow either.
\<close>

datatype xreal = Fin real | PInf | NInf | NaN

fun xneg :: "xreal \<Rightarrow> xreal" where
  "xneg (Fin a) = Fin (- a)"
| "xneg PInf = NInf"
| "xneg NInf = PInf"
| "xneg NaN = NaN"

fun xadd :: "xreal \<Rightarrow> xreal \<Rightarrow> xreal" where
  "xadd NaN _ = NaN"
| "xadd _ NaN = NaN"
| "xadd (Fin a) (Fin b) = Fin (a + b)"
| "xadd PInf NInf = NaN"
| "xadd NInf PInf = NaN"
| "xadd PInf _ = PInf"
| "xadd NInf _ = NInf"
| "xadd (Fin a) y = y"

definition xsub :: "xreal \<Rightarrow> xreal \<Rightarrow> xreal" where
  "xsub x y = xadd x (xneg y)"

text \<open>The sign of an infinite product: positive when both factors have the same sign.\<close>

definition signed_inf :: "bool \<Rightarrow> xreal" where
  "signed_inf pos = (if pos then PInf else NInf)"

fun xmul :: "xreal \<Rightarrow> xreal \<Rightarrow> xreal" where
  "xmul NaN _ = NaN"
| "xmul _ NaN = NaN"
| "xmul (Fin a) (Fin b) = Fin (a * b)"
| "xmul (Fin a) PInf = (if a = 0 then NaN else signed_inf (0 < a))"
| "xmul (Fin a) NInf = (if a = 0 then NaN else signed_inf (a < 0))"
| "xmul PInf (Fin b) = (if b = 0 then NaN else signed_inf (0 < b))"
| "xmul NInf (Fin b) = (if b = 0 then NaN else signed_inf (b < 0))"
| "xmul PInf PInf = PInf"
| "xmul NInf NInf = PInf"
| "xmul PInf NInf = NInf"
| "xmul NInf PInf = NInf"

text \<open>
  True division. A zero divisor is the positive zero (the only zero divisors of the
  program are a drawn \<open>0.0\<close> and an element count).
\<close>

fun xdiv :: "xreal \<Rightarrow> xreal \<Rightarrow> xreal" where
  "xdiv NaN _ = NaN"
| "xdiv _ NaN = NaN"
| "xdiv (Fin a) (Fin b) =
     (if b \<noteq> 0 then Fin (a / b) else if a = 0 then NaN else signed_inf (0 < a))"
| "xdiv (Fin a) _ = Fin 0"
| "xdiv PInf (Fin b) = signed_inf (0 \<le> b)"
| "xdiv NInf (Fin b) = signed_inf (b < 0)"
| "xdiv _ _ = NaN"

fun xabs :: "xreal \<Rightarrow> xreal" where
  "xabs (Fin a) = Fin \<bar>a\<bar>"
| "xabs PInf = PInf"
| "xabs NInf = PInf"
| "xabs NaN = NaN"

text \<open>\<open>np.log\<close>: minus infinity at zero, NaN below it.\<close>

fun xlog :: "xreal \<Rightarrow> xreal" where
  "xlog (Fin a) = (if 0 < a then Fin (ln a) else if a = 0 then NInf else NaN)"
| "xlog PInf = PInf"
| "xlog NInf = NaN"
| "xlog NaN = NaN"

text \<open>The comparison \<open><\<close>: false as soon as one side is NaN.\<close>

fun xless :: "xreal \<Rightarrow> xreal \<Rightarrow> bool" where
  "xless NaN _ = False"
| "xless _ NaN = False"
| "xless (Fin a) (Fin b) = (a < b)"
| "xless _ NInf = False"
| "xless PInf _ = False"
| "xless NInf _ = True"
| "xless (Fin a) PInf = True"

fun xle :: "xreal \<Rightarrow> xreal \<Rightarrow> bool" where
  "xle NaN _ = False"
| "xle _ NaN = False"
| "xle (Fin a) (Fin b) = (a \<le> b)"
| "xle NInf _ = True"
| "xle _ PInf = True"
| "xle _ NInf = False"
| "xle PInf _ = False"

text \<open>\<open>np.maximum\<close> propagates NaN.\<close>

definition xmaximum :: "xreal \<Rightarrow> xreal \<Rightarrow> xreal" where
  "xmaximum x y = (if x = NaN \<or> y = NaN then NaN else if xless x y then y else x)"

fun is_finite :: "xreal \<Rightarrow> bool" where
  "is_finite (Fin a) = True"
| "is_finite _ = False"

text \<open>\<open>ndarray\<close> sum (as \<open>np.mean\<close> uses it): NaN propagates.\<close>

definition xsum :: "xreal list \<Rightarrow> xreal" where
  "xsum xs = foldl xadd (Fin 0) xs"

text \<open>
  \<open>np.sum\<close> of a pandas Series calls the Series' own \<open>sum\<close>, which leaves the NaN
  entries out (\<open>skipna=True\<close>).
\<close>

definition series_sum :: "xreal list \<Rightarrow> xreal" where
  "series_sum xs = xsum (filter (\<lambda>x. x \<noteq> NaN) xs)"

section \<open>The grid environment (\<open>SmartGridEnv\<close>)\<close>

text \<open>
  Of the pandapower network the program touches the generators' \<open>p_mw\<close> column
  (\<open>net.gen\<close>, rows labelled \<open>0, 1, ...\<close>) and reads two result columns,
  \<open>res_line.loading_percent\<close> and \<open>res_bus.vm_pu\<close>. The power-flow solver
  \<open>pp.runpp\<close> is external: it is a parameter, a function from the generator set-points
  to the two result columns, \<open>None\<close> when it raises \<open>LoadflowNotConverged\<close>.
\<close>

datatype error = LoadflowNotConverged | KeyError | IndexError | ValueError

record net =
  gen_p_mw :: "xreal list"
  loading_percent :: "xreal list"
  vm_pu :: "xreal list"

type_synonym solver = "xreal list \<Rightarrow> (xreal list \<times> xreal list) option"

definition runpp :: "solver \<Rightarrow> net \<Rightarrow> error + net" where
  "runpp S n =
     (case S (gen_p_mw n) of
        None \<Rightarrow> Inl LoadflowNotConverged
      | Some (l, v) \<Rightarrow> Inr (n\<lparr>loading_percent := l, vm_pu := v\<rparr>))"

text \<open>
  \<open>for i, adj in enumerate(gen_adjustments[:54]): self.net.gen.at[i, 'p_mw'] += adj\<close>.
  Reading \<open>.at\<close> at a label the table does not have raises \<open>KeyError\<close>.
\<close>

fun adjust :: "xreal list \<Rightarrow> nat \<Rightarrow> xreal list \<Rightarrow> error + xreal list" where
  "adjust g i [] = Inr g"
| "adjust g i (a # as) =
     (if i < length g then adjust (g[i := xadd (g ! i) a]) (Suc i) as else Inl KeyError)"

definition apply_action :: "solver \<Rightarrow> net \<Rightarrow> xreal list \<Rightarrow> error + net" where
  "apply_action S n gen_adjustments =
     (case adjust (gen_p_mw n) 0 (take 54 gen_adjustments) of
        Inl e \<Rightarrow> Inl e
      | Inr g \<Rightarrow> runpp S (n\<lparr>gen_p_mw := g\<rparr>))"

definition congestion :: "xreal list \<Rightarrow> xreal" where
  "congestion ls = series_sum (map (\<lambda>l. xmaximum (Fin 0) (xsub l (Fin 100))) ls)"

definition v_dev :: "xreal list \<Rightarrow> xreal" where
  "v_dev vs = series_sum (map (\<lambda>v. xabs (xsub v (Fin 1))) vs)"

text \<open>\<open>get_reward\<close> runs the power flow again, then reads the result columns.\<close>

definition reward_value :: "net \<Rightarrow> xreal" where
  "reward_value n =
     xneg (xadd (xmul (Fin (7 / 10)) (congestion (loading_percent n)))
                (xmul (Fin (3 / 10)) (v_dev (vm_pu n))))"

definition get_reward :: "solver \<Rightarrow> net \<Rightarrow> error + (xreal \<times> net)" where
  "get_reward S n =
     (case runpp S n of
        Inl e \<Rightarrow> Inl e
      | Inr n' \<Rightarrow> Inr (reward_value n', n'))"

section \<open>The optimizer (\<open>QPSO\<close>)\<close>

text \<open>
  The two-dimensional arrays are lists of rows. NumPy arrays are rectangular, and the
  constructor gives \<open>particles\<close> and \<open>pbest\<close> the shape
  \<open>(n_particles, n_dimensions)\<close> and \<open>gbest\<close> the length \<open>n_dimensions\<close>.
\<close>

record qpso =
  n_particles :: nat
  n_dimensions :: nat
  beta :: xreal
  particles :: "xreal list list"
  pbest :: "xreal list list"
  gbest :: "xreal list"
  gbest_fit :: xreal

text \<open>
  The random generator is a parameter: the sequence of values that
  \<open>np.random.uniform(-1, 1, ...)\<close>, respectively \<open>np.random.random\<close>, hands out
  during the call, in the order in which they are drawn. They are finite floats.
\<close>

type_synonym rng = "nat \<Rightarrow> real"

definition uniform_matrix :: "rng \<Rightarrow> nat \<Rightarrow> nat \<Rightarrow> xreal list list" where
  "uniform_matrix U n D = map (\<lambda>i. map (\<lambda>d. Fin (U (i * D + d))) [0..<D]) [0..<n]"

text \<open>\<open>__init__\<close>; \<open>self.particles[0]\<close> raises \<open>IndexError\<close> on an array without rows.\<close>

definition init :: "nat \<Rightarrow> nat \<Rightarrow> xreal \<Rightarrow> rng \<Rightarrow> error + qpso" where
  "init n D b U =
     (let X = uniform_matrix U n D in
      if n = 0 then Inl IndexError
      else Inr \<lparr>n_particles = n, n_dimensions = D, beta = b, particles = X,
                pbest = X, gbest = X ! 0, gbest_fit = PInf\<rparr>)"

text \<open>\<open>np.mean(self.pbest, axis=0)\<close>: the mean of each column; NaN for an array without rows.\<close>

definition mean_axis0 :: "nat \<Rightarrow> xreal list list \<Rightarrow> xreal list" where
  "mean_axis0 D P =
     map (\<lambda>d. xdiv (xsum (map (\<lambda>row. row ! d) P)) (Fin (real (length P)))) [0..<D]"

text \<open>\<open>np.where(np.random.random(n) > 0.5, 1, -1)\<close>\<close>

definition sign_of :: "real \<Rightarrow> xreal" where
  "sign_of r = (if r > 1 / 2 then Fin 1 else Fin (- 1))"

text \<open>\<open>p = phi * self.pbest[i] + (1 - phi) * self.gbest\<close>, one component.\<close>

definition attractor :: "real \<Rightarrow> xreal \<Rightarrow> xreal \<Rightarrow> xreal" where
  "attractor phi pb gb = xadd (xmul (Fin phi) pb) (xmul (Fin (1 - phi)) gb)"

text \<open>
  \<open>p + sign * self.beta * np.abs(mbest - self.particles[i]) * np.log(1/u)\<close>, one
  component; the products associate to the left.
\<close>

definition displaced :: "xreal \<Rightarrow> xreal \<Rightarrow> xreal \<Rightarrow> xreal \<Rightarrow> xreal \<Rightarrow> real \<Rightarrow> xreal" where
  "displaced p s b mb x u =
     xadd p (xmul (xmul (xmul s b) (xabs (xsub mb x))) (xlog (xdiv (Fin 1) (Fin u))))"

text \<open>
  The new position of particle \<open>i\<close>. The three vectors drawn for it are the values
  \<open>3 * D * i, ...\<close> of the generator: first \<open>u\<close>, then \<open>phi\<close>, then the one for the sign.
\<close>

definition new_position :: "rng \<Rightarrow> xreal list \<Rightarrow> nat \<Rightarrow> qpso \<Rightarrow> xreal list" where
  "new_position R mbest i q =
     (let D = n_dimensions q;
          u = (\<lambda>d. R (3 * D * i + d));
          phi = (\<lambda>d. R (3 * D * i + D + d));
          r = (\<lambda>d. R (3 * D * i + 2 * D + d))
      in map (\<lambda>d. displaced (attractor (phi d) (pbest q ! i ! d) (gbest q ! d))
                     (sign_of (r d)) (beta q) (mbest ! d) (particles q ! i ! d) (u d))
           [0..<D])"

definition rows_ok :: "nat \<Rightarrow> xreal list list \<Rightarrow> bool" where
  "rows_ok D P = list_all (\<lambda>row. length row = D) P"

text \<open>
  One turn of the loop body. An index beyond the rows raises \<open>IndexError\<close>, operands
  of different lengths raise \<open>ValueError\<close>; the constructor produces neither shape
  (nor an operand of length one that NumPy would broadcast, which is not modelled). There
  is no \<open>try\<close> in the program: an exception of the environment ends the call, and
  since nothing catches it, no state goes with the error.
\<close>

definition update_particle ::
  "solver \<Rightarrow> rng \<Rightarrow> xreal list \<Rightarrow> nat \<Rightarrow> qpso \<times> net \<Rightarrow> error + (qpso \<times> net)" where
  "update_particle S R mbest i st =
     (let q = fst st; env = snd st; D = n_dimensions q in
      if \<not> i < length (pbest q) then Inl IndexError
      else if \<not> (rows_ok D (pbest q) \<and> length (gbest q) = D) then Inl ValueError
      else if \<not> i < length (particles q) then Inl IndexError
      else if \<not> rows_ok D (particles q) then Inl ValueError
      else
        let x = new_position R mbest i q;
            q1 = q\<lparr>particles := (particles q)[i := x]\<rparr>
        in case apply_action S env x of
             Inl e \<Rightarrow> Inl e
           | Inr env1 \<Rightarrow>
               (case get_reward S env1 of
                  Inl e \<Rightarrow> Inl e
                | Inr (rw, env2) \<Rightarrow>
                    let fit = xneg rw in
                    if xless fit (gbest_fit q1)
                    then Inr (q1\<lparr>gbest := x, gbest_fit := fit\<rparr>, env2)
                    else Inr (q1, env2)))"

text \<open>\<open>for i in range(self.n_particles)\<close>\<close>

fun for_particles ::
  "solver \<Rightarrow> rng \<Rightarrow> xreal list \<Rightarrow> nat list \<Rightarrow> qpso \<times> net \<Rightarrow> error + (qpso \<times> net)" where
  "for_particles S R mbest [] st = Inr st"
| "for_particles S R mbest (i # is) st =
     (case update_particle S R mbest i st of
        Inl e \<Rightarrow> Inl e
      | Inr st' \<Rightarrow> for_particles S R mbest is st')"

text \<open>The state after the first \<open>k\<close> turns of the loop of \<open>update\<close>.\<close>

definition after_particles ::
  "solver \<Rightarrow> rng \<Rightarrow> qpso \<Rightarrow> net \<Rightarrow> nat \<Rightarrow> error + (qpso \<times> net)" where
  "after_particles S R q env k =
     for_particles S R (mean_axis0 (n_dimensions q) (pbest q)) [0..<k] (q, env)"

text \<open>\<open>update\<close> returns \<open>self.gbest\<close>; the swarm and the environment are its state.\<close>

definition update ::
  "solver \<Rightarrow> rng \<Rightarrow> qpso \<Rightarrow> net \<Rightarrow> error + (xreal list \<times> qpso \<times> net)" where
  "update S R q env =
     (case after_particles S R q env (n_particles q) of
        Inl e \<Rightarrow> Inl e
      | Inr (q', env') \<Rightarrow> Inr (gbest q', q', env'))"

section \<open>The optimizer of the second script (\<open>QPSO.solve\<close>)\<close>

text \<open>
  The class of the second script keeps only \<open>beta\<close> and a \<open>20 \<times> 54\<close> array of
  positions. Its \<open>gbest\<close> is \<open>self.particles[0]\<close> without a copy, a view of row 0 of
  the array: it is read as row 0 of the array as it is at that moment.
\<close>

record core_qpso =
  core_beta :: xreal
  core_particles :: "xreal list list"

definition core_init :: "xreal \<Rightarrow> rng \<Rightarrow> core_qpso" where
  "core_init b U = \<lparr>core_beta = b, core_particles = uniform_matrix U 20 54\<rparr>"

text \<open>\<open>np.sign(np.random.random(54) - 0.5)\<close>\<close>

definition core_sign :: "real \<Rightarrow> xreal" where
  "core_sign r = (if 0 < r - 1 / 2 then Fin 1 else if r - 1 / 2 < 0 then Fin (- 1) else Fin 0)"

definition solve_position :: "rng \<Rightarrow> xreal \<Rightarrow> xreal list \<Rightarrow> nat \<Rightarrow> xreal list list \<Rightarrow> xreal list" where
  "solve_position R b mbest i P =
     (let u = (\<lambda>d. R (3 * 54 * i + d));
          phi = (\<lambda>d. R (3 * 54 * i + 54 + d));
          r = (\<lambda>d. R (3 * 54 * i + 2 * 54 + d))
      in map (\<lambda>d. displaced (attractor (phi d) (P ! i ! d) (P ! 0 ! d))
                     (core_sign (r d)) b (mbest ! d) (P ! i ! d) (u d))
           [0..<54])"

definition solve_particle ::
  "rng \<Rightarrow> xreal \<Rightarrow> xreal list \<Rightarrow> nat \<Rightarrow> xreal list list \<Rightarrow> error + xreal list list" where
  "solve_particle R b mbest i P =
     (if \<not> i < length P then Inl IndexError
      else if \<not> rows_ok 54 P then Inl ValueError
      else Inr (P[i := solve_position R b mbest i P]))"

fun solve_loop ::
  "rng \<Rightarrow> xreal \<Rightarrow> xreal list \<Rightarrow> nat list \<Rightarrow> xreal list list \<Rightarrow> error + xreal list list" where
  "solve_loop R b mbest [] P = Inr P"
| "solve_loop R b mbest (i # is) P =
     (case solve_particle R b mbest i P of
        Inl e \<Rightarrow> Inl e
      | Inr P' \<Rightarrow> solve_loop R b mbest is P')"

definition solve :: "rng \<Rightarrow> core_qpso \<Rightarrow> error + (xreal list \<times> core_qpso)" where
  "solve R q =
     (case solve_loop R (core_beta q) (mean_axis0 54 (core_particles q)) [0..<20]
             (core_particles q) of
        Inl e \<Rightarrow> Inl e
      | Inr P \<Rightarrow> Inr (P ! 0, q\<lparr>core_particles := P\<rparr>))"

section \<open>Notions used in the statements\<close>

text \<open>The shapes the constructor gives the arrays.\<close>

definition wf_swarm :: "qpso \<Rightarrow> bool" where
  "wf_swarm q \<longleftrightarrow>
     length (particles q) = n_particles q \<and> length (pbest q) = n_particles q \<and>
     rows_ok (n_dimensions q) (particles q) \<and> rows_ok (n_dimensions q) (pbest q) \<and>
     length (gbest q) = n_dimensions q"




text \<open>
  The generator column \<open>g\<close> with the action \<open>a\<close> added to it: its entries
  \<open>0..53\<close>, as far as \<open>a\<close> has them.
\<close>

definition add_action :: "xreal list \<Rightarrow> xreal list \<Rightarrow> xreal list" where
  "add_action g a =
     map (\<lambda>j. if j < min 54 (length a) then xadd (g ! j) (a ! j) else g ! j) [0..<length g]"

text \<open>The least of a value and a list of values, by the comparison \<open><\<close> of the floats.\<close>

definition running_min :: "xreal \<Rightarrow> xreal list \<Rightarrow> xreal" where
  "running_min m fs = foldl (\<lambda>m f. if xless f m then f else m) m fs"

text \<open>
  The same with the positions: the best fitness and its position, over a list of pairs of
  a fitness and a position, as \<open>if fit < self.gbest_fit\<close> keeps them.
\<close>

definition running_best ::
  "xreal \<times> xreal list \<Rightarrow> (xreal \<times> xreal list) list \<Rightarrow> xreal \<times> xreal list" where
  "running_best best fxs =
     foldl (\<lambda>best fx. if xless (fst fx) (fst best) then fx else best) best fxs"

text \<open>
  The fitness that turn \<open>i\<close> of the loop of \<open>update\<close> reads: minus the reward of the
  network as that turn leaves it. \<open>None\<close> when the loop does not get through turn \<open>i\<close>.
\<close>

definition fitness_at :: "solver \<Rightarrow> rng \<Rightarrow> qpso \<Rightarrow> net \<Rightarrow> nat \<Rightarrow> xreal option" where
  "fitness_at S R q env i =
     (case after_particles S R q env (Suc i) of
        Inl e \<Rightarrow> None
      | Inr (q', env') \<Rightarrow> Some (xneg (reward_value env')))"

text \<open>
  \<open>later_swarm q q'\<close>: the swarm \<open>q\<close> has become \<open>q'\<close> after some calls of
  \<open>update\<close> that returned, whatever the solver, the draws and the network were.
\<close>

inductive later_swarm :: "qpso \<Rightarrow> qpso \<Rightarrow> bool" where
  same: "later_swarm q q"
| call: "later_swarm q q1 \<Longrightarrow> update S R q1 env = Inr (g, q2, env') \<Longrightarrow> later_swarm q q2"

text \<open>Two calls of \<open>solve\<close> in a row, and a position of the array they leave.\<close>

definition solve_twice :: "rng \<Rightarrow> rng \<Rightarrow> core_qpso \<Rightarrow> error + (xreal list \<times> core_qpso)" where
  "solve_twice R R' c = (case solve R c of Inl e \<Rightarrow> Inl e | Inr (g, c') \<Rightarrow> solve R' c')"

definition core_position :: "error + (xreal list \<times> core_qpso) \<Rightarrow> nat \<Rightarrow> nat \<Rightarrow> xreal option" where
  "core_position r i d =
     (case r of Inl e \<Rightarrow> None | Inr (g, c) \<Rightarrow> Some (core_particles c ! i ! d))"

text \<open>Stand-ins for the external solver and for the random generator.\<close>

definition falling_solver :: solver where
  "falling_solver g = Some (map (\<lambda>x. xsub (Fin 105) x) g, [Fin 1])"

definition spike_draws :: rng where
  "spike_draws k = (if k = 54 then 1 / 2 else 0)"

definition constant_solver :: "xreal list \<Rightarrow> xreal list \<Rightarrow> solver" where
  "constant_solver l v g = Some (l, v)"

definition diverges_at :: "xreal list \<Rightarrow> xreal list \<Rightarrow> xreal list \<Rightarrow> solver" where
  "diverges_at g0 l v g = (if g = g0 then None else Some (l, v))"

definition constant_draws :: "real \<Rightarrow> rng" where
  "constant_draws r k = r"

definition zero_then :: "real \<Rightarrow> rng" where
  "zero_then r k = (if k = 0 then 0 else r)"

definition ramp_draws :: rng where
  "ramp_draws k = real k / 2"

text \<open>
  A swarm of two particles in one dimension, as \<open>QPSO(2, 1, 0.5)\<close> builds it when the
  generator hands out \<open>0\<close> and \<open>0.5\<close>; a network with one generator; and the two
  after a call of \<open>update\<close> in which every draw is \<open>0.5\<close> and the solver answers
  one line loaded at 105 percent and one bus at 1.0 per unit.
\<close>

abbreviation example_swarm :: qpso where
  "example_swarm \<equiv>
     \<lparr>n_particles = 2, n_dimensions = 1, beta = Fin (1 / 2),
      particles = [[Fin 0], [Fin (1 / 2)]], pbest = [[Fin 0], [Fin (1 / 2)]],
      gbest = [Fin 0], gbest_fit = PInf\<rparr>"

abbreviation example_net :: net where
  "example_net \<equiv> \<lparr>gen_p_mw = [Fin 0], loading_percent = [], vm_pu = []\<rparr>"

abbreviation example_swarm_after :: qpso where
  "example_swarm_after \<equiv>
     \<lparr>n_particles = 2, n_dimensions = 1, beta = Fin (1 / 2),
      particles = [[Fin (- (ln 2 / 8))], [Fin (1 / 4 - 3 * ln 2 / 16)]],
      pbest = [[Fin 0], [Fin (1 / 2)]],
      gbest = [Fin (- (ln 2 / 8))], gbest_fit = Fin (7 / 2)\<rparr>"

abbreviation example_net_after :: net where
  "example_net_after \<equiv>
     \<lparr>gen_p_mw = [Fin (1 / 4 - 5 * ln 2 / 16)], loading_percent = [Fin 105], vm_pu = [Fin 1]\<rparr>"

text \<open>
  Step 4 as the specification words it, for one particle: when the new fitness \<open>fit\<close>
  of the new position \<open>x\<close> improves on the particle's \<open>personalBestFitness\<close>, both
  \<open>personalBest\<close> and \<open>personalBestFitness\<close> are replaced.
\<close>

definition spec_step4 :: "xreal \<Rightarrow> xreal list \<Rightarrow> xreal list \<times> xreal \<Rightarrow> xreal list \<times> xreal" where
  "spec_step4 fit x pb =
     (if xless fit (snd pb) then (x, fit) else pb)"

section \<open>The reward\<close>

lemma foldl_xadd_Fin:
  "foldl xadd (Fin a) (map (\<lambda>x. Fin (f x)) xs) = Fin (a + sum_list (map f xs))"
  by (induction xs arbitrary: a) (simp_all add: add.assoc)

lemma filter_NaN_Fin:
  "filter (\<lambda>x. x \<noteq> NaN) (map (\<lambda>x. Fin (f x)) xs) = map (\<lambda>x. Fin (f x)) xs"
  by (induction xs) simp_all

lemma series_sum_finite:
  "series_sum (map (\<lambda>x. Fin (f x)) xs) = Fin (sum_list (map f xs))"
  by (simp add: series_sum_def xsum_def filter_NaN_Fin foldl_xadd_Fin)

lemma congestion_finite:
  "congestion (map Fin ls) = Fin (\<Sum>l\<leftarrow>ls. max 0 (l - 100))"
proof -
  have "map (\<lambda>l. xmaximum (Fin 0) (xsub l (Fin 100))) (map Fin ls)
      = map (\<lambda>l. Fin (max 0 (l - 100))) ls"
    by (simp add: xmaximum_def xsub_def max_def)
  then show ?thesis
    unfolding congestion_def by (simp only: series_sum_finite)
qed

lemma v_dev_finite: "v_dev (map Fin vs) = Fin (\<Sum>v\<leftarrow>vs. \<bar>v - 1\<bar>)"
proof -
  have "map (\<lambda>v. xabs (xsub v (Fin 1))) (map Fin vs) = map (\<lambda>v. Fin \<bar>v - 1\<bar>) vs"
    by (simp add: xsub_def)
  then show ?thesis
    unfolding v_dev_def by (simp only: series_sum_finite)
qed

lemma get_reward_finite:
  assumes "S (gen_p_mw n) = Some (map Fin ls, map Fin vs)"
  shows "get_reward S n =
    Inr (Fin (- (7 / 10 * (\<Sum>l\<leftarrow>ls. max 0 (l - 100)) + 3 / 10 * (\<Sum>v\<leftarrow>vs. \<bar>v - 1\<bar>))),
         n\<lparr>loading_percent := map Fin ls, vm_pu := map Fin vs\<rparr>)"
  using assms
  by (simp add: get_reward_def reward_value_def runpp_def congestion_finite v_dev_finite)

text \<open>
  C9. When the power flow gives finite line loadings \<open>ls\<close> and bus voltages \<open>vs\<close>,
  \<open>get_reward\<close> returns \<open>-(0.7 * congestion + 0.3 * voltageDeviation)\<close>, where the
  congestion is the sum over the lines of \<open>max(0, loading - 100)\<close> and the voltage
  deviation the sum over the buses of \<open>|voltage - 1.0|\<close>; for the loadings
  \<open>[105, 98, 120]\<close> and the voltages \<open>[1.02, 0.99, 1.05]\<close> the reward is \<open>-17.524\<close>.
\<close>

theorem get_reward_formula:
  "(S (gen_p_mw n) = Some (map Fin ls, map Fin vs) \<longrightarrow>
      get_reward S n =
        Inr (Fin (- (7 / 10 * (\<Sum>l\<leftarrow>ls. max 0 (l - 100)) + 3 / 10 * (\<Sum>v\<leftarrow>vs. \<bar>v - 1\<bar>))),
             n\<lparr>loading_percent := map Fin ls, vm_pu := map Fin vs\<rparr>)) \<and>
   (S (gen_p_mw n) =
      Some ([Fin 105, Fin 98, Fin 120], [Fin (102 / 100), Fin (99 / 100), Fin (105 / 100)]) \<longrightarrow>
      get_reward S n =
        Inr (Fin (- (17524 / 1000)),
             n\<lparr>loading_percent := [Fin 105, Fin 98, Fin 120],
               vm_pu := [Fin (102 / 100), Fin (99 / 100), Fin (105 / 100)]\<rparr>))"
proof (intro conjI impI)
  assume "S (gen_p_mw n) = Some (map Fin ls, map Fin vs)"
  then show "get_reward S n =
        Inr (Fin (- (7 / 10 * (\<Sum>l\<leftarrow>ls. max 0 (l - 100)) + 3 / 10 * (\<Sum>v\<leftarrow>vs. \<bar>v - 1\<bar>))),
             n\<lparr>loading_percent := map Fin ls, vm_pu := map Fin vs\<rparr>)"
    by (rule get_reward_finite)
next
  assume "S (gen_p_mw n) =
      Some ([Fin 105, Fin 98, Fin 120], [Fin (102 / 100), Fin (99 / 100), Fin (105 / 100)])"
  with get_reward_finite [of S n "[105, 98, 120]" "[102 / 100, 99 / 100, 105 / 100]"]
  show "get_reward S n =
        Inr (Fin (- (17524 / 1000)),
             n\<lparr>loading_percent := [Fin 105, Fin 98, Fin 120],
               vm_pu := [Fin (102 / 100), Fin (99 / 100), Fin (105 / 100)]\<rparr>)"
    by simp
qed

theorem get_reward_formula_witness:
  "get_reward
     (constant_solver [Fin 105, Fin 98, Fin 120] [Fin (102 / 100), Fin (99 / 100), Fin (105 / 100)])
     \<lparr>gen_p_mw = [], loading_percent = [], vm_pu = []\<rparr>
   = Inr (Fin (- (17524 / 1000)),
          \<lparr>gen_p_mw = [], loading_percent = [Fin 105, Fin 98, Fin 120],
             vm_pu = [Fin (102 / 100), Fin (99 / 100), Fin (105 / 100)]\<rparr>)"
  using get_reward_formula [of
     "constant_solver [Fin 105, Fin 98, Fin 120] [Fin (102 / 100), Fin (99 / 100), Fin (105 / 100)]"
     "\<lparr>gen_p_mw = [], loading_percent = [], vm_pu = []\<rparr>"
     "[105, 98, 120]" "[102 / 100, 99 / 100, 105 / 100]"]
  by (simp add: constant_solver_def)

section \<open>Applying an action\<close>

lemma adjust_length: "adjust g i as = Inr g' \<Longrightarrow> length g' = length g"
  by (induction as arbitrary: g i) (auto split: if_splits)

lemma adjust_nth:
  "adjust g i as = Inr g' \<Longrightarrow> j < length g \<Longrightarrow>
   g' ! j = (if i \<le> j \<and> j < i + length as then xadd (g ! j) (as ! (j - i)) else g ! j)"
proof (induction as arbitrary: g i)
  case Nil
  then show ?case by auto
next
  case (Cons a as)
  from Cons.prems have i: "i < length g"
    and rec: "adjust (g[i := xadd (g ! i) a]) (Suc i) as = Inr g'"
    by (auto split: if_splits)
  have ih: "g' ! j = (if Suc i \<le> j \<and> j < Suc i + length as
                      then xadd (g[i := xadd (g ! i) a] ! j) (as ! (j - Suc i))
                      else g[i := xadd (g ! i) a] ! j)"
    using Cons.IH [OF rec] Cons.prems(2) by simp
  show ?case
  proof (cases "j = i")
    case True
    with ih i show ?thesis by simp
  next
    case False
    with ih i show ?thesis
      by (auto simp: nth_Cons' Suc_diff_le)
  qed
qed

lemma adjust_fits: "adjust g i as = Inr g' \<Longrightarrow> as \<noteq> [] \<Longrightarrow> i + length as \<le> length g"
proof (induction as arbitrary: g i)
  case Nil
  then show ?case by simp
next
  case (Cons a as)
  from Cons.prems have i: "i < length g"
    and rec: "adjust (g[i := xadd (g ! i) a]) (Suc i) as = Inr g'"
    by (auto split: if_splits)
  show ?case
  proof (cases "as = []")
    case True
    with i show ?thesis by simp
  next
    case False
    from Cons.IH [OF rec False] show ?thesis by simp
  qed
qed

lemma adjust_succeeds: "i + length as \<le> length g \<Longrightarrow> \<exists>g'. adjust g i as = Inr g'"
  by (induction as arbitrary: g i) auto

lemma adjust_add_action:
  assumes "adjust g 0 (take 54 a) = Inr g'"
  shows "g' = add_action g a"
proof (rule nth_equalityI)
  show "length g' = length (add_action g a)"
    using adjust_length [OF assms] by (simp add: add_action_def)
next
  fix j assume "j < length g'"
  then have j: "j < length g" using adjust_length [OF assms] by simp
  from adjust_nth [OF assms j] j show "g' ! j = add_action g a ! j"
    by (simp add: add_action_def)
qed

lemma apply_action_Inr:
  assumes "apply_action S n a = Inr n'"
  shows "gen_p_mw n' = add_action (gen_p_mw n) a"
    and "S (add_action (gen_p_mw n) a) = Some (loading_percent n', vm_pu n')"
  using assms adjust_add_action [of "gen_p_mw n" a]
  by (auto simp: apply_action_def runpp_def split: sum.splits option.splits)

lemma get_reward_Inr:
  assumes "get_reward S n = Inr (rw, n')"
  shows "rw = reward_value n'" and "gen_p_mw n' = gen_p_mw n"
    and "S (gen_p_mw n) = Some (loading_percent n', vm_pu n')"
  using assms
  by (auto simp: get_reward_def runpp_def split: sum.splits option.splits)

text \<open>
  C6, counterexample. Given an action of one element, fewer than the 54 that the swarm
  dimension of the program is, on a network of 54 generators, \<open>apply_action\<close> does not
  fail: it adds the element to the first generator and leaves the other 53 as they are.
\<close>

theorem apply_action_short_counterexample:
  "apply_action (constant_solver [] [])
     \<lparr>gen_p_mw = replicate 54 (Fin 0), loading_percent = [], vm_pu = []\<rparr> [Fin 1]
   = Inr \<lparr>gen_p_mw = Fin 1 # replicate 53 (Fin 0), loading_percent = [], vm_pu = []\<rparr>"
proof -
  have "replicate 54 (Fin 0) = Fin 0 # replicate 53 (Fin 0)"
    by (simp add: numeral_eq_Suc)
  then show ?thesis
    by (simp add: apply_action_def runpp_def constant_solver_def)
qed

lemma apply_action_take: "apply_action S n a = apply_action S n (take 54 a)"
  by (simp add: apply_action_def)

lemma apply_action_partial:
  assumes "min 54 (length a) \<le> length (gen_p_mw n)"
  shows "apply_action S n a = runpp S (n\<lparr>gen_p_mw := add_action (gen_p_mw n) a\<rparr>)"
proof -
  from assms obtain g' where g': "adjust (gen_p_mw n) 0 (take 54 a) = Inr g'"
    using adjust_succeeds [of 0 "take 54 a" "gen_p_mw n"] by (auto simp: min.commute)
  from adjust_add_action [OF g'] g' show ?thesis
    by (simp add: apply_action_def)
qed

text \<open>
  C6, as amended. \<open>apply_action\<close> ignores the elements of the action beyond the first
  54. Given an action of fewer than 54 elements, and no more than the network has
  generators, it does not fail on account of the length: it adds the elements to the
  leading generators, leaves the other generators as they are, and runs the power flow on
  the result. The call returns when the power flow converges, and it ends with
  \<open>LoadflowNotConverged\<close> when the power flow does not.
\<close>

theorem apply_action_lengths:
  "apply_action S n a = apply_action S n (take 54 a) \<and>
   (length a < 54 \<and> length a \<le> length (gen_p_mw n) \<longrightarrow>
      apply_action S n a = runpp S (n\<lparr>gen_p_mw := add_action (gen_p_mw n) a\<rparr>) \<and>
      (S (add_action (gen_p_mw n) a) = None \<longrightarrow>
         apply_action S n a = Inl LoadflowNotConverged) \<and>
      (\<forall>l v. S (add_action (gen_p_mw n) a) = Some (l, v) \<longrightarrow>
         apply_action S n a =
           Inr (n\<lparr>gen_p_mw := add_action (gen_p_mw n) a, loading_percent := l, vm_pu := v\<rparr>)) \<and>
      length (add_action (gen_p_mw n) a) = length (gen_p_mw n) \<and>
      (\<forall>j < length (gen_p_mw n).
          add_action (gen_p_mw n) a ! j =
            (if j < length a then xadd (gen_p_mw n ! j) (a ! j) else gen_p_mw n ! j)))"
proof (intro conjI impI allI)
  show "apply_action S n a = apply_action S n (take 54 a)"
    by (rule apply_action_take)
next
  assume "length a < 54 \<and> length a \<le> length (gen_p_mw n)"
  then show "apply_action S n a = runpp S (n\<lparr>gen_p_mw := add_action (gen_p_mw n) a\<rparr>)"
    by (intro apply_action_partial) simp
next
  assume "length a < 54 \<and> length a \<le> length (gen_p_mw n)"
    and "S (add_action (gen_p_mw n) a) = None"
  then show "apply_action S n a = Inl LoadflowNotConverged"
    using apply_action_partial [of a n S] by (simp add: runpp_def)
next
  fix l v
  assume "length a < 54 \<and> length a \<le> length (gen_p_mw n)"
    and "S (add_action (gen_p_mw n) a) = Some (l, v)"
  then show "apply_action S n a =
           Inr (n\<lparr>gen_p_mw := add_action (gen_p_mw n) a, loading_percent := l, vm_pu := v\<rparr>)"
    using apply_action_partial [of a n S] by (simp add: runpp_def)
next
  show "length (add_action (gen_p_mw n) a) = length (gen_p_mw n)"
    by (simp add: add_action_def)
next
  fix j
  assume "length a < 54 \<and> length a \<le> length (gen_p_mw n)" and "j < length (gen_p_mw n)"
  then show "add_action (gen_p_mw n) a ! j =
            (if j < length a then xadd (gen_p_mw n ! j) (a ! j) else gen_p_mw n ! j)"
    by (simp add: add_action_def)
qed

theorem apply_action_lengths_witness:
  "apply_action (constant_solver [] [])
     \<lparr>gen_p_mw = [Fin 10, Fin 20, Fin 30], loading_percent = [], vm_pu = []\<rparr> [Fin 1, Fin 2]
   = Inr \<lparr>gen_p_mw = [Fin 11, Fin 22, Fin 30], loading_percent = [], vm_pu = []\<rparr> \<and>
   apply_action (diverges_at [Fin 11, Fin 22, Fin 30] [] [])
     \<lparr>gen_p_mw = [Fin 10, Fin 20, Fin 30], loading_percent = [], vm_pu = []\<rparr> [Fin 1, Fin 2]
   = Inl LoadflowNotConverged"
  using apply_action_lengths [of "constant_solver [] []"
     "\<lparr>gen_p_mw = [Fin 10, Fin 20, Fin 30], loading_percent = [], vm_pu = []\<rparr>" "[Fin 1, Fin 2]"]
    apply_action_lengths [of "diverges_at [Fin 11, Fin 22, Fin 30] [] []"
     "\<lparr>gen_p_mw = [Fin 10, Fin 20, Fin 30], loading_percent = [], vm_pu = []\<rparr>" "[Fin 1, Fin 2]"]
  by (simp add: add_action_def runpp_def constant_solver_def diverges_at_def
      upt_rec [of 0] upt_rec [of 1] upt_rec [of 2])

section \<open>One turn of the loop\<close>

lemma update_particle_Inr:
  assumes "update_particle S R mb i (q, env) = Inr (q', env')"
  obtains env1 rw where
    "i < length (pbest q)" and "i < length (particles q)"
    and "rows_ok (n_dimensions q) (pbest q)" and "rows_ok (n_dimensions q) (particles q)"
    and "length (gbest q) = n_dimensions q"
    and "apply_action S env (new_position R mb i q) = Inr env1"
    and "get_reward S env1 = Inr (rw, env')"
    and "q' = (if xless (xneg rw) (gbest_fit q)
               then q\<lparr>particles := (particles q)[i := new_position R mb i q],
                      gbest := new_position R mb i q, gbest_fit := xneg rw\<rparr>
               else q\<lparr>particles := (particles q)[i := new_position R mb i q]\<rparr>)"
  using assms
  by (auto simp: update_particle_def Let_def split: if_splits sum.splits prod.splits)

lemma update_particle_frame:
  assumes "update_particle S R mb i (q, env) = Inr (q', env')"
  shows "pbest q' = pbest q" and "n_particles q' = n_particles q"
    and "n_dimensions q' = n_dimensions q" and "beta q' = beta q"
    and "particles q' = (particles q)[i := new_position R mb i q]"
  by (rule update_particle_Inr [OF assms], simp)+

lemma update_particle_best:
  assumes "update_particle S R mb i (q, env) = Inr (q', env')"
  shows "gbest_fit q' =
           (if xless (xneg (reward_value env')) (gbest_fit q)
            then xneg (reward_value env') else gbest_fit q)"
    and "gbest q' =
           (if xless (xneg (reward_value env')) (gbest_fit q)
            then new_position R mb i q else gbest q)"
proof -
  from assms obtain env1 rw where rw: "get_reward S env1 = Inr (rw, env')"
    and q': "q' = (if xless (xneg rw) (gbest_fit q)
               then q\<lparr>particles := (particles q)[i := new_position R mb i q],
                      gbest := new_position R mb i q, gbest_fit := xneg rw\<rparr>
               else q\<lparr>particles := (particles q)[i := new_position R mb i q]\<rparr>)"
    by (rule update_particle_Inr)
  from get_reward_Inr(1) [OF rw] have "rw = reward_value env'" .
  with q' show "gbest_fit q' =
           (if xless (xneg (reward_value env')) (gbest_fit q)
            then xneg (reward_value env') else gbest_fit q)"
    and "gbest q' =
           (if xless (xneg (reward_value env')) (gbest_fit q)
            then new_position R mb i q else gbest q)"
    by simp_all
qed

section \<open>The loop\<close>

lemma for_particles_append:
  "for_particles S R mb (xs @ ys) st =
     (case for_particles S R mb xs st of
        Inl e \<Rightarrow> Inl e
      | Inr st' \<Rightarrow> for_particles S R mb ys st')"
  by (induction xs arbitrary: st) (simp_all split: sum.splits)

lemma after_particles_0: "after_particles S R q env 0 = Inr (q, env)"
  by (simp add: after_particles_def)

lemma after_particles_Suc:
  "after_particles S R q env (Suc k) =
     (case after_particles S R q env k of
        Inl e \<Rightarrow> Inl e
      | Inr st \<Rightarrow> update_particle S R (mean_axis0 (n_dimensions q) (pbest q)) k st)"
  by (simp add: after_particles_def for_particles_append split: sum.splits)

lemma after_particles_prefix:
  assumes "after_particles S R q env n = Inr st" and "k \<le> n"
  shows "\<exists>st'. after_particles S R q env k = Inr st'"
  using assms
proof (induction n arbitrary: st)
  case 0
  then show ?case by simp
next
  case (Suc n)
  show ?case
  proof (cases "k = Suc n")
    case True
    with Suc.prems show ?thesis by blast
  next
    case False
    with Suc.prems have "k \<le> n" by simp
    moreover from Suc.prems(1) obtain st0 where "after_particles S R q env n = Inr st0"
      by (auto simp: after_particles_Suc split: sum.splits)
    ultimately show ?thesis using Suc.IH by blast
  qed
qed

text \<open>A property that every turn keeps holds after any number of turns.\<close>

lemma after_particles_invariant:
  assumes run: "after_particles S R q env k = Inr st"
    and init: "P (q, env)"
    and step: "\<And>i s s'. P s \<Longrightarrow> i < k \<Longrightarrow>
        update_particle S R (mean_axis0 (n_dimensions q) (pbest q)) i s = Inr s' \<Longrightarrow> P s'"
  shows "P st"
  using run step
proof (induction k arbitrary: st)
  case 0
  with init show ?case by (simp add: after_particles_0)
next
  case (Suc k)
  from Suc.prems(1) obtain st0 where st0: "after_particles S R q env k = Inr st0"
    and turn: "update_particle S R (mean_axis0 (n_dimensions q) (pbest q)) k st0 = Inr st"
    by (auto simp: after_particles_Suc split: sum.splits)
  have "P st0"
  proof (rule Suc.IH [OF st0])
    fix i s s'
    assume "P s" and "i < k"
      and "update_particle S R (mean_axis0 (n_dimensions q) (pbest q)) i s = Inr s'"
    then show "P s'"
      by (intro Suc.prems(2) [of s i s']) simp_all
  qed
  then show ?case
    by (rule Suc.prems(2) [of st0 k st]) (simp_all add: turn)
qed

lemma update_Inr:
  "update S R q env = Inr (g, q', env') \<longleftrightarrow>
     after_particles S R q env (n_particles q) = Inr (q', env') \<and> g = gbest q'"
  by (auto simp: update_def split: sum.splits)

lemma after_particles_frame:
  assumes "after_particles S R q env k = Inr (q', env')"
  shows "pbest q' = pbest q \<and> n_particles q' = n_particles q \<and>
         n_dimensions q' = n_dimensions q \<and> beta q' = beta q"
proof -
  let ?P = "\<lambda>s. pbest (fst s) = pbest q \<and> n_particles (fst s) = n_particles q \<and>
                 n_dimensions (fst s) = n_dimensions q \<and> beta (fst s) = beta q"
  have "?P (q', env')"
  proof (rule after_particles_invariant [OF assms, where P = ?P])
    show "?P (q, env)" by simp
  next
    fix i s s'
    assume "?P s"
      and "update_particle S R (mean_axis0 (n_dimensions q) (pbest q)) i s = Inr s'"
    then show "?P s'"
      using update_particle_frame [of S R "mean_axis0 (n_dimensions q) (pbest q)" i
          "fst s" "snd s" "fst s'" "snd s'"]
      by simp
  qed
  then show ?thesis by simp
qed

section \<open>A run on the example swarm\<close>

lemmas run_defs = update_def after_particles_def update_particle_def new_position_def
  mean_axis0_def rows_ok_def displaced_def attractor_def sign_of_def apply_action_def
  get_reward_def reward_value_def runpp_def congestion_def v_dev_def series_sum_def xsum_def
  xsub_def xmaximum_def signed_inf_def init_def uniform_matrix_def Let_def
  constant_solver_def diverges_at_def constant_draws_def zero_then_def ramp_draws_def
  upt_rec [of 0] upt_rec [of 1] upt_rec [of 2] upt_rec [of "Suc 0"] upt_rec [of "Suc (Suc 0)"]

lemma example_init: "init 2 1 (Fin (1 / 2)) ramp_draws = Inr example_swarm"
  by (simp add: run_defs)

lemma example_update:
  "update (constant_solver [Fin 105] [Fin 1]) (constant_draws (1 / 2)) example_swarm example_net =
     Inr ([Fin (- (ln 2 / 8))], example_swarm_after, example_net_after)"
  by (simp add: run_defs)

lemma example_after_1:
  "after_particles (constant_solver [Fin 105] [Fin 1]) (constant_draws (1 / 2))
     example_swarm example_net (Suc 0) =
     Inr (\<lparr>n_particles = 2, n_dimensions = 1, beta = Fin (1 / 2),
           particles = [[Fin (- (ln 2 / 8))], [Fin (1 / 2)]],
           pbest = [[Fin 0], [Fin (1 / 2)]],
           gbest = [Fin (- (ln 2 / 8))], gbest_fit = Fin (7 / 2)\<rparr>,
          \<lparr>gen_p_mw = [Fin (- (ln 2 / 8))], loading_percent = [Fin 105], vm_pu = [Fin 1]\<rparr>)"
  by (simp add: run_defs)

lemma example_after_2:
  "after_particles (constant_solver [Fin 105] [Fin 1]) (constant_draws (1 / 2))
     example_swarm example_net (Suc (Suc 0)) = Inr (example_swarm_after, example_net_after)"
  by (simp add: run_defs)


lemma example_wf: "wf_swarm example_swarm"
  by (simp add: wf_swarm_def rows_ok_def)



text \<open>
  The same swarm with \<open>beta = 0\<close>, and a solver whose line loading falls as the
  set-point rises: the second particle is fitter than the first.
\<close>

lemma falling_after_1:
  "after_particles falling_solver (constant_draws (1 / 2)) (example_swarm\<lparr>beta := Fin 0\<rparr>)
     example_net (Suc 0) =
     Inr (\<lparr>n_particles = 2, n_dimensions = 1, beta = Fin 0,
           particles = [[Fin 0], [Fin (1 / 2)]], pbest = [[Fin 0], [Fin (1 / 2)]],
           gbest = [Fin 0], gbest_fit = Fin (7 / 2)\<rparr>,
          \<lparr>gen_p_mw = [Fin 0], loading_percent = [Fin 105], vm_pu = [Fin 1]\<rparr>)"
  by (simp add: run_defs falling_solver_def)

lemma falling_after_2:
  "after_particles falling_solver (constant_draws (1 / 2)) (example_swarm\<lparr>beta := Fin 0\<rparr>)
     example_net (Suc (Suc 0)) =
     Inr (\<lparr>n_particles = 2, n_dimensions = 1, beta = Fin 0,
           particles = [[Fin 0], [Fin (1 / 4)]], pbest = [[Fin 0], [Fin (1 / 2)]],
           gbest = [Fin (1 / 4)], gbest_fit = Fin (133 / 40)\<rparr>,
          \<lparr>gen_p_mw = [Fin (1 / 4)], loading_percent = [Fin (419 / 4)], vm_pu = [Fin 1]\<rparr>)"
  by (simp add: run_defs falling_solver_def)

lemma falling_update:
  "update falling_solver (constant_draws (1 / 2)) (example_swarm\<lparr>beta := Fin 0\<rparr>) example_net =
     Inr ([Fin (1 / 4)],
          \<lparr>n_particles = 2, n_dimensions = 1, beta = Fin 0,
           particles = [[Fin 0], [Fin (1 / 4)]], pbest = [[Fin 0], [Fin (1 / 2)]],
           gbest = [Fin (1 / 4)], gbest_fit = Fin (133 / 40)\<rparr>,
          \<lparr>gen_p_mw = [Fin (1 / 4)], loading_percent = [Fin (419 / 4)], vm_pu = [Fin 1]\<rparr>)"
  by (simp add: run_defs falling_solver_def)

section \<open>The personal bests\<close>

lemma update_frame:
  assumes "update S R q env = Inr (g, q', env')"
  shows "pbest q' = pbest q" and "n_particles q' = n_particles q"
    and "n_dimensions q' = n_dimensions q" and "beta q' = beta q"
  using assms after_particles_frame [of S R q env "n_particles q" q' env']
  by (simp_all add: update_Inr)

lemma later_swarm_frame:
  "later_swarm q q' \<Longrightarrow> pbest q' = pbest q \<and> n_dimensions q' = n_dimensions q"
  by (induction rule: later_swarm.induct) (simp_all add: update_frame)

lemma init_Inr:
  "init n D b U = Inr q \<Longrightarrow>
     pbest q = uniform_matrix U n D \<and> particles q = uniform_matrix U n D \<and>
     gbest q = uniform_matrix U n D ! 0 \<and> gbest_fit q = PInf \<and>
     n_particles q = n \<and> n_dimensions q = D \<and> beta q = b \<and> 0 < n"
  by (auto simp: init_def Let_def split: if_splits)

text \<open>
  C10. \<open>update\<close> never modifies the \<open>pbest\<close> array: after every call that returns,
  whatever the draws, \<open>pbest\<close> is what it was before the call, and so is the mean
  \<open>mbest\<close> computed from it. Hence, for a swarm built by the constructor, \<open>pbest\<close>
  is the array of the initial random positions in every later call, and \<open>mbest\<close> is the
  same for every particle and every call.
\<close>

theorem update_never_modifies_pbest:
  "(update S R q env = Inr (g, q', env') \<longrightarrow>
      pbest q' = pbest q \<and>
      mean_axis0 (n_dimensions q') (pbest q') = mean_axis0 (n_dimensions q) (pbest q)) \<and>
   (init n D b U = Inr q0 \<and> later_swarm q0 q \<and> update S R q env = Inr (g, q', env') \<longrightarrow>
      pbest q' = uniform_matrix U n D \<and>
      mean_axis0 (n_dimensions q') (pbest q') = mean_axis0 D (uniform_matrix U n D))"
  using update_frame(1,3) [of S R q env g q' env'] later_swarm_frame [of q0 q]
    init_Inr [of n D b U q0]
  by auto

theorem update_never_modifies_pbest_witness:
  "init 2 1 (Fin (1 / 2)) ramp_draws = Inr example_swarm \<and>
   later_swarm example_swarm example_swarm \<and>
   update (constant_solver [Fin 105] [Fin 1]) (constant_draws (1 / 2)) example_swarm example_net =
     Inr ([Fin (- (ln 2 / 8))], example_swarm_after, example_net_after) \<and>
   pbest example_swarm_after = pbest example_swarm \<and>
   pbest example_swarm_after = uniform_matrix ramp_draws 2 1"
  using update_never_modifies_pbest [of "constant_solver [Fin 105] [Fin 1]"
      "constant_draws (1 / 2)" example_swarm example_net
      "[Fin (- (ln 2 / 8))]" example_swarm_after example_net_after
      2 1 "Fin (1 / 2)" ramp_draws example_swarm]
    example_update example_init later_swarm.same [of example_swarm]
  by simp

section \<open>The global best fitness\<close>

lemma xless_not_NaN: "xless a b \<Longrightarrow> a \<noteq> NaN \<and> b \<noteq> NaN"
  by (cases a; cases b) simp_all

lemma xless_imp_xle: "xless a b \<Longrightarrow> xle a b"
  by (cases a; cases b) simp_all

lemma xle_refl: "a \<noteq> NaN \<Longrightarrow> xle a a"
  by (cases a) simp_all

lemma xle_trans: "xle a b \<Longrightarrow> xle b c \<Longrightarrow> xle a c"
  by (cases a; cases b; cases c) simp_all

lemma update_particle_not_worse:
  assumes "update_particle S R mb i (q, env) = Inr (q', env')" and "gbest_fit q \<noteq> NaN"
  shows "gbest_fit q' \<noteq> NaN \<and> xle (gbest_fit q') (gbest_fit q)"
  using update_particle_best(1) [OF assms(1)] assms(2)
  by (auto simp: xle_refl dest: xless_not_NaN xless_imp_xle)

lemma after_particles_not_worse:
  assumes "after_particles S R q env k = Inr (q', env')" and "gbest_fit q \<noteq> NaN"
  shows "gbest_fit q' \<noteq> NaN \<and> xle (gbest_fit q') (gbest_fit q)"
proof -
  let ?P = "\<lambda>s. gbest_fit (fst s) \<noteq> NaN \<and> xle (gbest_fit (fst s)) (gbest_fit q)"
  have "?P (q', env')"
  proof (rule after_particles_invariant [OF assms(1), where P = ?P])
    show "?P (q, env)" using assms(2) by (simp add: xle_refl)
  next
    fix i s s'
    assume P: "?P s"
      and turn: "update_particle S R (mean_axis0 (n_dimensions q) (pbest q)) i s = Inr s'"
    from turn have "update_particle S R (mean_axis0 (n_dimensions q) (pbest q)) i
        (fst s, snd s) = Inr (fst s', snd s')" by simp
    from update_particle_not_worse [OF this] P show "?P s'"
      by (blast intro: xle_trans)
  qed
  then show ?thesis by simp
qed

text \<open>
  The best fitness of a swarm built by the constructor is never NaN: it starts as
  \<open>+\<infinity>\<close>, and a call replaces it only by a fitness that compared less than it.
\<close>

lemma later_swarm_gbest_fit:
  assumes "init n D b U = Inr q0" and "later_swarm q0 q"
  shows "gbest_fit q \<noteq> NaN"
  using assms(2,1)
proof (induction rule: later_swarm.induct)
  case (same q)
  then show ?case by (simp add: init_Inr)
next
  case (call q q1 S R env g q2 env')
  then have "gbest_fit q1 \<noteq> NaN" by simp
  with call.hyps(2) show ?case
    using after_particles_not_worse [of S R q1 env "n_particles q1" q2 env']
    by (simp add: update_Inr)
qed

text \<open>
  C8. For every call of \<open>update\<close> that returns, whatever the draws, the best fitness
  after the call is less than or equal to the best fitness before it: for every swarm
  whose best fitness is not NaN (the comparison of the floats is false on NaN), and so for
  every swarm built by the constructor, after any number of calls.
\<close>

theorem gbest_fit_non_increasing:
  assumes "update S R q env = Inr (g, q', env')"
  shows "(gbest_fit q \<noteq> NaN \<longrightarrow> xle (gbest_fit q') (gbest_fit q)) \<and>
         (init n D b U = Inr q0 \<and> later_swarm q0 q \<longrightarrow> xle (gbest_fit q') (gbest_fit q))"
proof -
  have "xle (gbest_fit q') (gbest_fit q)" if "gbest_fit q \<noteq> NaN"
    using assms that after_particles_not_worse [of S R q env "n_particles q" q' env']
    by (simp add: update_Inr)
  then show ?thesis
    using later_swarm_gbest_fit [of n D b U q0 q] by blast
qed

theorem gbest_fit_non_increasing_witness:
  "update (constant_solver [Fin 105] [Fin 1]) (constant_draws (1 / 2)) example_swarm example_net =
     Inr ([Fin (- (ln 2 / 8))], example_swarm_after, example_net_after) \<and>
   init 2 1 (Fin (1 / 2)) ramp_draws = Inr example_swarm \<and>
   later_swarm example_swarm example_swarm \<and>
   gbest_fit example_swarm \<noteq> NaN \<and>
   xle (gbest_fit example_swarm_after) (gbest_fit example_swarm)"
  using gbest_fit_non_increasing [OF example_update, of 2 1 "Fin (1 / 2)" ramp_draws example_swarm]
    example_update example_init later_swarm.same [of example_swarm]
  by simp

lemma running_min_snoc:
  "running_min m (fs @ [f]) = (if xless f (running_min m fs) then f else running_min m fs)"
  by (simp add: running_min_def)

lemma running_best_snoc:
  "running_best best (fxs @ [fx]) =
     (if xless (fst fx) (fst (running_best best fxs)) then fx else running_best best fxs)"
  by (simp add: running_best_def)

lemma fitness_at_Inr:
  "after_particles S R q env (Suc i) = Inr (q', env') \<Longrightarrow>
   fitness_at S R q env i = Some (xneg (reward_value env'))"
  by (simp add: fitness_at_def)

lemma zip_snoc:
  "length xs < length ys \<Longrightarrow> zip (xs @ [x]) ys = zip xs ys @ [(x, ys ! length xs)]"
proof (induction xs arbitrary: ys)
  case Nil
  then show ?case by (cases ys) simp_all
next
  case (Cons a xs)
  then show ?case by (cases ys) simp_all
qed

lemma zip_update_beyond: "length xs \<le> k \<Longrightarrow> zip xs (ys[k := y]) = zip xs ys"
proof (induction xs arbitrary: ys k)
  case Nil
  then show ?case by simp
next
  case (Cons a xs)
  then show ?case by (cases ys; cases k) simp_all
qed

text \<open>
  After \<open>k\<close> turns the best fitness and the best position are those of the fold over
  the fitnesses read so far, each paired with the new position of its particle.
\<close>

lemma after_particles_running_best:
  "after_particles S R q env k = Inr (q', env') \<Longrightarrow>
   \<exists>fits. map (fitness_at S R q env) [0..<k] = map Some fits \<and>
          (gbest_fit q', gbest q') =
            running_best (gbest_fit q, gbest q) (zip fits (particles q')) \<and>
          gbest_fit q' = running_min (gbest_fit q) fits"
proof (induction k arbitrary: q' env')
  case 0
  then show ?case by (simp add: after_particles_0 running_best_def running_min_def)
next
  case (Suc k)
  let ?mb = "mean_axis0 (n_dimensions q) (pbest q)"
  from Suc.prems obtain q1 e1 where st0: "after_particles S R q env k = Inr (q1, e1)"
    and turn: "update_particle S R ?mb k (q1, e1) = Inr (q', env')"
    by (auto simp: after_particles_Suc split: sum.splits)
  from Suc.IH [OF st0] obtain fits
    where fits: "map (fitness_at S R q env) [0..<k] = map Some fits"
      and b: "(gbest_fit q1, gbest q1) =
                running_best (gbest_fit q, gbest q) (zip fits (particles q1))"
      and m: "gbest_fit q1 = running_min (gbest_fit q) fits"
    by blast
  from fits have len: "length fits = k"
    using length_map [of "fitness_at S R q env" "[0..<k]"] by simp
  let ?f = "xneg (reward_value env')"
  let ?x = "new_position R ?mb k q1"
  have k: "k < length (particles q1)" using turn by (rule update_particle_Inr)
  have P: "particles q' = (particles q1)[k := ?x]"
    using update_particle_frame(5) [OF turn] .
  have z: "zip (fits @ [?f]) (particles q') = zip fits (particles q1) @ [(?f, ?x)]"
    using k len by (simp add: P zip_snoc zip_update_beyond)
  have "map (fitness_at S R q env) [0..<Suc k] = map Some (fits @ [?f])"
    using fits fitness_at_Inr [OF Suc.prems] by simp
  moreover have "(gbest_fit q', gbest q') =
      running_best (gbest_fit q, gbest q) (zip (fits @ [?f]) (particles q'))"
    using update_particle_best [OF turn] b [symmetric] by (simp add: z running_best_snoc)
  moreover have "gbest_fit q' = running_min (gbest_fit q) (fits @ [?f])"
    using update_particle_best(1) [OF turn] m by (simp add: running_min_snoc)
  ultimately show ?case by blast
qed

text \<open>
  C1, counterexample. On the example swarm the first particle moves to a new position of
  fitness 3.5, which improves on \<open>+\<infinity>\<close>, the value that \<open>personalBestFitness\<close>
  starts with. Step 4 as the specification words it makes \<open>personalBest[0]\<close> that new
  position; after \<open>update\<close>, \<open>pbest[0]\<close> is still the initial position.
\<close>

theorem personal_best_counterexample:
  "update (constant_solver [Fin 105] [Fin 1]) (constant_draws (1 / 2)) example_swarm example_net =
     Inr ([Fin (- (ln 2 / 8))], example_swarm_after, example_net_after) \<and>
   fitness_at (constant_solver [Fin 105] [Fin 1]) (constant_draws (1 / 2))
     example_swarm example_net 0 = Some (Fin (7 / 2)) \<and>
   spec_step4 (Fin (7 / 2)) (particles example_swarm_after ! 0) (pbest example_swarm ! 0, PInf)
     = ([Fin (- (ln 2 / 8))], Fin (7 / 2)) \<and>
   pbest example_swarm_after ! 0 = [Fin 0] \<and>
   pbest example_swarm_after ! 0 \<noteq>
     fst (spec_step4 (Fin (7 / 2)) (particles example_swarm_after ! 0)
            (pbest example_swarm ! 0, PInf))"
  using example_update fitness_at_Inr [OF example_after_1]
  by (simp add: spec_step4_def reward_value_def congestion_def v_dev_def series_sum_def
      xsum_def xsub_def xmaximum_def)

text \<open>
  C1, as amended. After every update step that returns, the global best fitness is the
  minimum of its value before the step and of the fitnesses read for the particles in that
  step, one per particle in the order of the particles. The step compares a particle's new
  fitness with the global best fitness only and, on improvement, replaces the global best
  fitness by that fitness and the global best position by the particle's new position; the
  position it returns is the global best. The swarm has no \<open>personalBestFitness\<close>, and
  \<open>pbest\<close> is left as it is.
\<close>

theorem gbest_fit_is_minimum:
  assumes "update S R q env = Inr (g, q', env')"
  shows "\<exists>fits. map (fitness_at S R q env) [0..<n_particles q] = map Some fits \<and>
           gbest_fit q' = running_min (gbest_fit q) fits \<and>
           (gbest_fit q', gbest q') =
             running_best (gbest_fit q, gbest q) (zip fits (particles q')) \<and>
           g = gbest q' \<and> pbest q' = pbest q"
  using assms after_particles_running_best [of S R q env "n_particles q" q' env']
    after_particles_frame [of S R q env "n_particles q" q' env']
  by (auto simp: update_Inr)

theorem gbest_fit_is_minimum_witness:
  "update falling_solver (constant_draws (1 / 2)) (example_swarm\<lparr>beta := Fin 0\<rparr>) example_net =
     Inr ([Fin (1 / 4)],
          \<lparr>n_particles = 2, n_dimensions = 1, beta = Fin 0,
           particles = [[Fin 0], [Fin (1 / 4)]], pbest = [[Fin 0], [Fin (1 / 2)]],
           gbest = [Fin (1 / 4)], gbest_fit = Fin (133 / 40)\<rparr>,
          \<lparr>gen_p_mw = [Fin (1 / 4)], loading_percent = [Fin (419 / 4)], vm_pu = [Fin 1]\<rparr>) \<and>
   map (fitness_at falling_solver (constant_draws (1 / 2)) (example_swarm\<lparr>beta := Fin 0\<rparr>)
          example_net) [0..<2]
     = map Some [Fin (7 / 2), Fin (133 / 40)] \<and>
   running_min PInf [Fin (7 / 2), Fin (133 / 40)] = Fin (133 / 40) \<and>
   running_best (PInf, [Fin 0]) (zip [Fin (7 / 2), Fin (133 / 40)] [[Fin 0], [Fin (1 / 4)]])
     = (Fin (133 / 40), [Fin (1 / 4)])"
proof -
  have fits: "map (fitness_at falling_solver (constant_draws (1 / 2))
          (example_swarm\<lparr>beta := Fin 0\<rparr>) example_net) [0..<2]
     = map Some [Fin (7 / 2), Fin (133 / 40)]"
    using fitness_at_Inr [OF falling_after_1] fitness_at_Inr [OF falling_after_2]
    by (simp add: reward_value_def congestion_def v_dev_def series_sum_def
      xsum_def xsub_def xmaximum_def upt_rec [of 0] upt_rec [of "Suc 0"] upt_rec [of 2])
  let ?q = "example_swarm\<lparr>beta := Fin 0\<rparr>"
  let ?q' = "\<lparr>n_particles = 2, n_dimensions = 1, beta = Fin 0,
           particles = [[Fin 0], [Fin (1 / 4)]], pbest = [[Fin 0], [Fin (1 / 2)]],
           gbest = [Fin (1 / 4)], gbest_fit = Fin (133 / 40)\<rparr>"
  from gbest_fit_is_minimum [OF falling_update] obtain fs
    where fs: "map (fitness_at falling_solver (constant_draws (1 / 2)) ?q example_net)
                 [0..<n_particles ?q] = map Some fs"
      and m: "gbest_fit ?q' = running_min (gbest_fit ?q) fs"
      and b: "(gbest_fit ?q', gbest ?q') =
                running_best (gbest_fit ?q, gbest ?q) (zip fs (particles ?q'))"
    by blast
  from fs fits have "map Some fs = map Some [Fin (7 / 2), Fin (133 / 40)]"
    by simp
  then have "fs = [Fin (7 / 2), Fin (133 / 40)]"
    by (simp only: inj_map_eq_map [OF inj_Some])
  with m b have "running_min PInf [Fin (7 / 2), Fin (133 / 40)] = Fin (133 / 40)"
    and "running_best (PInf, [Fin 0])
           (zip [Fin (7 / 2), Fin (133 / 40)] [[Fin 0], [Fin (1 / 4)]])
         = (Fin (133 / 40), [Fin (1 / 4)])"
    by simp_all
  with fits falling_update show ?thesis by simp
qed

section \<open>Failures\<close>

lemma after_particles_Inl_later:
  assumes "after_particles S R q env k = Inl e" and "k \<le> n"
  shows "after_particles S R q env n = Inl e"
  using assms(2)
proof (induction n)
  case 0
  with assms(1) show ?case by simp
next
  case (Suc n)
  show ?case
  proof (cases "k = Suc n")
    case True
    with assms(1) show ?thesis by simp
  next
    case False
    with Suc have "after_particles S R q env n = Inl e" by simp
    then show ?thesis by (simp add: after_particles_Suc)
  qed
qed

lemma turn_failure_propagates:
  assumes "after_particles S R q env i = Inr st" and "i < n_particles q"
    and "update_particle S R (mean_axis0 (n_dimensions q) (pbest q)) i st = Inl e"
  shows "update S R q env = Inl e"
proof -
  from assms(1,3) have "after_particles S R q env (Suc i) = Inl e"
    by (simp add: after_particles_Suc)
  from after_particles_Inl_later [OF this, of "n_particles q"] assms(2)
  show ?thesis by (simp add: update_def)
qed

section \<open>Shapes\<close>

lemma length_new_position: "length (new_position R mb i q) = n_dimensions q"
  by (simp add: new_position_def Let_def)

lemma rows_ok_update: "rows_ok D P \<Longrightarrow> length x = D \<Longrightarrow> rows_ok D (P[i := x])"
  using set_update_subset_insert [of P i x] by (auto simp: rows_ok_def list_all_iff)

lemma update_particle_wf:
  assumes "update_particle S R mb i (q, env) = Inr (q', env')" and "wf_swarm q"
  shows "wf_swarm q'"
proof -
  note fr = update_particle_frame [OF assms(1)]
  have "length (gbest q') = n_dimensions q"
    using update_particle_best(2) [OF assms(1)] assms(2)
    by (simp add: wf_swarm_def length_new_position)
  with assms(2) fr show ?thesis
    by (simp add: wf_swarm_def rows_ok_update length_new_position)
qed

lemma after_particles_wf:
  assumes "after_particles S R q env k = Inr (q', env')" and "wf_swarm q"
  shows "wf_swarm q'"
proof -
  have "wf_swarm (fst (q', env'))"
  proof (rule after_particles_invariant [OF assms(1), where P = "\<lambda>s. wf_swarm (fst s)"])
    show "wf_swarm (fst (q, env))" using assms(2) by simp
  next
    fix i s s'
    assume "wf_swarm (fst s)"
      and "update_particle S R (mean_axis0 (n_dimensions q) (pbest q)) i s = Inr s'"
    then show "wf_swarm (fst s')"
      using update_particle_wf [of S R "mean_axis0 (n_dimensions q) (pbest q)" i
          "fst s" "snd s" "fst s'" "snd s'"]
      by simp
  qed
  then show ?thesis by simp
qed

lemma init_wf: "init n D b U = Inr q \<Longrightarrow> wf_swarm q"
  by (auto simp: init_def Let_def wf_swarm_def rows_ok_def uniform_matrix_def list_all_iff
      split: if_splits)

text \<open>
  C2, counterexample. The two particles of the swarm sit at 0.5; the solver diverges on
  the set-point 0.5 that the first evaluation produces and would converge on the
  set-point 1.0 of the second. \<open>update\<close> does not go on to the second particle: the
  failure of the first evaluation leaves \<open>update\<close> as the exception.
\<close>

theorem evaluation_failure_counterexample:
  "init 2 1 (Fin (1 / 2)) (constant_draws (1 / 2)) =
     Inr \<lparr>n_particles = 2, n_dimensions = 1, beta = Fin (1 / 2),
          particles = [[Fin (1 / 2)], [Fin (1 / 2)]], pbest = [[Fin (1 / 2)], [Fin (1 / 2)]],
          gbest = [Fin (1 / 2)], gbest_fit = PInf\<rparr> \<and>
   diverges_at [Fin (1 / 2)] [Fin 105] [Fin 1] [Fin 1] = Some ([Fin 105], [Fin 1]) \<and>
   update (diverges_at [Fin (1 / 2)] [Fin 105] [Fin 1]) (constant_draws (1 / 2))
     \<lparr>n_particles = 2, n_dimensions = 1, beta = Fin (1 / 2),
      particles = [[Fin (1 / 2)], [Fin (1 / 2)]], pbest = [[Fin (1 / 2)], [Fin (1 / 2)]],
      gbest = [Fin (1 / 2)], gbest_fit = PInf\<rparr>
     example_net
   = Inl LoadflowNotConverged"
  by (simp add: run_defs)

text \<open>
  C2, as amended. If the fitness evaluation of one particle fails (applying its position
  to the network or reading the reward raises, as when the solver diverges), \<open>update\<close>
  does not catch the failure: the call ends with that exception at that particle, and no
  later particle is evaluated in that step.
\<close>

theorem evaluation_failure_propagates:
  assumes "wf_swarm q" and "i < n_particles q"
    and "after_particles S R q env i = Inr (qi, envi)"
    and "x = new_position R (mean_axis0 (n_dimensions q) (pbest q)) i qi"
    and "apply_action S envi x = Inl e \<or>
         (\<exists>env1. apply_action S envi x = Inr env1 \<and> get_reward S env1 = Inl e)"
  shows "update S R q env = Inl e"
proof -
  have wf: "wf_swarm qi" using after_particles_wf [OF assms(3,1)] .
  have n: "n_particles qi = n_particles q"
    using after_particles_frame [OF assms(3)] by simp
  have "update_particle S R (mean_axis0 (n_dimensions q) (pbest q)) i (qi, envi) = Inl e"
    using wf n assms(2,4,5)
    by (auto simp: update_particle_def wf_swarm_def Let_def)
  with assms(3,2) show ?thesis
    by (rule turn_failure_propagates)
qed

theorem evaluation_failure_propagates_witness:
  "wf_swarm example_swarm \<and>
   after_particles (diverges_at [Fin (- (ln 2 / 8))] [Fin 105] [Fin 1]) (constant_draws (1 / 2))
     example_swarm example_net 0 = Inr (example_swarm, example_net) \<and>
   apply_action (diverges_at [Fin (- (ln 2 / 8))] [Fin 105] [Fin 1]) example_net
     (new_position (constant_draws (1 / 2)) (mean_axis0 1 (pbest example_swarm)) 0 example_swarm)
     = Inl LoadflowNotConverged \<and>
   update (diverges_at [Fin (- (ln 2 / 8))] [Fin 105] [Fin 1]) (constant_draws (1 / 2))
     example_swarm example_net = Inl LoadflowNotConverged"
  using evaluation_failure_propagates [of example_swarm 0
      "diverges_at [Fin (- (ln 2 / 8))] [Fin 105] [Fin 1]" "constant_draws (1 / 2)" example_net
      example_swarm example_net
      "new_position (constant_draws (1 / 2)) (mean_axis0 1 (pbest example_swarm)) 0 example_swarm"
      LoadflowNotConverged]
    example_wf
  by (simp add: after_particles_0 run_defs)

section \<open>When the call returns\<close>

lemma length_add_action: "length (add_action g a) = length g"
  by (simp add: add_action_def)

lemma update_particle_succeeds:
  assumes wf: "wf_swarm q" and i: "i < n_particles q" and total: "\<forall>g. S g \<noteq> None"
    and gens: "min 54 (n_dimensions q) \<le> length (gen_p_mw env)"
  shows "\<exists>q' env'. update_particle S R mb i (q, env) = Inr (q', env') \<and>
           length (gen_p_mw env') = length (gen_p_mw env)"
proof -
  let ?x = "new_position R mb i q"
  let ?g = "add_action (gen_p_mw env) ?x"
  from total obtain l v where lv: "S ?g = Some (l, v)"
    by (metis option.exhaust surj_pair)
  let ?env1 = "env\<lparr>gen_p_mw := ?g, loading_percent := l, vm_pu := v\<rparr>"
  have "apply_action S env ?x = runpp S (env\<lparr>gen_p_mw := ?g\<rparr>)"
    using gens by (intro apply_action_partial) (simp add: length_new_position)
  with lv have act: "apply_action S env ?x = Inr ?env1"
    by (simp add: runpp_def)
  have rw: "get_reward S ?env1 = Inr (reward_value ?env1, ?env1)"
    using lv by (simp add: get_reward_def runpp_def)
  from wf i act rw show ?thesis
    by (simp add: update_particle_def wf_swarm_def Let_def length_add_action)
qed

lemma after_particles_succeeds:
  assumes wf: "wf_swarm q" and total: "\<forall>g. S g \<noteq> None"
    and gens: "min 54 (n_dimensions q) \<le> length (gen_p_mw env)" and k: "k \<le> n_particles q"
  shows "\<exists>q' env'. after_particles S R q env k = Inr (q', env') \<and>
           length (gen_p_mw env') = length (gen_p_mw env)"
  using k
proof (induction k)
  case 0
  then show ?case by (simp add: after_particles_0)
next
  case (Suc k)
  then obtain q1 e1 where st: "after_particles S R q env k = Inr (q1, e1)"
    and len: "length (gen_p_mw e1) = length (gen_p_mw env)"
    by auto
  have wf1: "wf_swarm q1" using after_particles_wf [OF st wf] .
  have fr: "n_particles q1 = n_particles q" "n_dimensions q1 = n_dimensions q"
    using after_particles_frame [OF st] by simp_all
  from update_particle_succeeds [OF wf1, of k S e1 R "mean_axis0 (n_dimensions q) (pbest q)"]
    total gens Suc.prems fr len
  show ?case by (simp add: after_particles_Suc st)
qed

text \<open>
  \<open>update\<close> returns whenever the solver converges on every set-point and the network has
  a generator for each of the first 54 components of a position.
\<close>

lemma update_returns:
  assumes "wf_swarm q" and "\<forall>g. S g \<noteq> None"
    and "min 54 (n_dimensions q) \<le> length (gen_p_mw env)"
  shows "\<exists>g q' env'. update S R q env = Inr (g, q', env')"
  using after_particles_succeeds [OF assms, of "n_particles q" R]
  by (auto simp: update_def)

section \<open>The rows of the position array\<close>

lemma after_particles_rows:
  "after_particles S R q env k = Inr (qk, ek) \<Longrightarrow>
   length (particles qk) = length (particles q) \<and>
   (\<forall>j. k \<le> j \<longrightarrow> particles qk ! j = particles q ! j)"
proof (induction k arbitrary: qk ek)
  case 0
  then show ?case by (simp add: after_particles_0)
next
  case (Suc k)
  from Suc.prems obtain q1 e1 where st0: "after_particles S R q env k = Inr (q1, e1)"
    and turn: "update_particle S R (mean_axis0 (n_dimensions q) (pbest q)) k (q1, e1)
                 = Inr (qk, ek)"
    by (auto simp: after_particles_Suc split: sum.splits)
  from update_particle_frame(5) [OF turn] Suc.IH [OF st0] show ?case
    by simp
qed

lemma turn_position:
  assumes "after_particles S R q env i = Inr (qa, ea)"
    and "after_particles S R q env (Suc i) = Inr (qb, eb)"
  shows "particles qb ! i = new_position R (mean_axis0 (n_dimensions q) (pbest q)) i qa"
    and "i < length (particles q)"
    and "gen_p_mw eb = add_action (gen_p_mw ea) (particles qb ! i)"
    and "S (gen_p_mw eb) = Some (loading_percent eb, vm_pu eb)"
proof -
  let ?mb = "mean_axis0 (n_dimensions q) (pbest q)"
  from assms have turn: "update_particle S R ?mb i (qa, ea) = Inr (qb, eb)"
    by (simp add: after_particles_Suc)
  from turn obtain env1 rw where i: "i < length (particles qa)"
    and act: "apply_action S ea (new_position R ?mb i qa) = Inr env1"
    and rw: "get_reward S env1 = Inr (rw, eb)"
    by (rule update_particle_Inr)
  from update_particle_frame(5) [OF turn] i
  show x: "particles qb ! i = new_position R ?mb i qa" by simp
  from i after_particles_rows [OF assms(1)] show "i < length (particles q)" by simp
  from apply_action_Inr(1) [OF act] get_reward_Inr(2) [OF rw] x
  show "gen_p_mw eb = add_action (gen_p_mw ea) (particles qb ! i)" by simp
  from get_reward_Inr(2,3) [OF rw] show "S (gen_p_mw eb) = Some (loading_percent eb, vm_pu eb)"
    by simp
qed

lemma after_particles_row_final:
  assumes "after_particles S R q env k = Inr (qk, ek)"
    and "after_particles S R q env n = Inr (qn, en)" and "j < k" and "k \<le> n"
  shows "particles qn ! j = particles qk ! j"
  using assms(2,4)
proof (induction n arbitrary: qn en)
  case 0
  with assms(3) show ?case by simp
next
  case (Suc n)
  show ?case
  proof (cases "k = Suc n")
    case True
    with Suc.prems assms(1) show ?thesis by simp
  next
    case False
    with Suc.prems have kn: "k \<le> n" by simp
    from Suc.prems(1) obtain q1 e1 where st0: "after_particles S R q env n = Inr (q1, e1)"
      and turn: "update_particle S R (mean_axis0 (n_dimensions q) (pbest q)) n (q1, e1)
                   = Inr (qn, en)"
      by (auto simp: after_particles_Suc split: sum.splits)
    from update_particle_frame(5) [OF turn] Suc.IH [OF st0 kn] assms(3) kn show ?thesis
      by simp
  qed
qed

lemma after_particles_gens:
  "after_particles S R q env k = Inr (qk, ek) \<Longrightarrow>
   k \<le> length (particles q) \<and>
   gen_p_mw ek = foldl add_action (gen_p_mw env) (take k (particles qk))"
proof (induction k arbitrary: qk ek)
  case 0
  then show ?case by (simp add: after_particles_0)
next
  case (Suc k)
  from Suc.prems obtain q1 e1 where st0: "after_particles S R q env k = Inr (q1, e1)"
    by (auto simp: after_particles_Suc split: sum.splits)
  note t = turn_position [OF st0 Suc.prems]
  have len: "length (particles qk) = length (particles q)"
    using after_particles_rows [OF Suc.prems] by simp
  have "take k (particles qk) = take k (particles q1)"
  proof (rule nth_equalityI)
    show "length (take k (particles qk)) = length (take k (particles q1))"
      using len after_particles_rows [OF st0] by simp
  next
    fix j assume "j < length (take k (particles qk))"
    then have "j < k" by simp
    from after_particles_row_final [OF st0 Suc.prems this] this
    show "take k (particles qk) ! j = take k (particles q1) ! j" by simp
  qed
  then have "take (Suc k) (particles qk) = take k (particles q1) @ [particles qk ! k]"
    using t(2) len by (simp add: take_Suc_conv_app_nth)
  with Suc.IH [OF st0] t(2,3) show ?case by simp
qed

text \<open>
  C5. During an \<open>update\<close> the fitness evaluations change the one network in place, one
  after another: the evaluation of particle \<open>i\<close> adds the particle's new position to the
  generator set-points as the evaluation before it left them, and the result columns are
  those of the power flow on these set-points. Nothing is restored between evaluations:
  after the call the set-points are the initial ones with the new positions of all the
  particles added, in the order of the particles.
\<close>

theorem evaluations_accumulate_on_network:
  assumes "update S R q env = Inr (g, q', env')" and "wf_swarm q"
  shows "gen_p_mw env' = foldl add_action (gen_p_mw env) (particles q') \<and>
         (\<forall>i < n_particles q. \<exists>qa ea qb eb.
             after_particles S R q env i = Inr (qa, ea) \<and>
             after_particles S R q env (Suc i) = Inr (qb, eb) \<and>
             gen_p_mw eb = add_action (gen_p_mw ea) (particles q' ! i) \<and>
             S (gen_p_mw eb) = Some (loading_percent eb, vm_pu eb))"
proof (intro conjI allI impI)
  from assms(1) have run: "after_particles S R q env (n_particles q) = Inr (q', env')"
    by (simp add: update_Inr)
  have len: "length (particles q') = n_particles q"
    using after_particles_rows [OF run] assms(2) by (simp add: wf_swarm_def)
  with after_particles_gens [OF run]
  show "gen_p_mw env' = foldl add_action (gen_p_mw env) (particles q')" by simp
  fix i assume i: "i < n_particles q"
  from after_particles_prefix [OF run, of "Suc i"] i
  obtain qb eb where b: "after_particles S R q env (Suc i) = Inr (qb, eb)" by auto
  from after_particles_prefix [OF run, of i] i
  obtain qa ea where a: "after_particles S R q env i = Inr (qa, ea)" by auto
  have "particles q' ! i = particles qb ! i"
    using after_particles_row_final [OF b run, of i] i by simp
  with turn_position(3,4) [OF a b] a b
  show "\<exists>qa ea qb eb.
             after_particles S R q env i = Inr (qa, ea) \<and>
             after_particles S R q env (Suc i) = Inr (qb, eb) \<and>
             gen_p_mw eb = add_action (gen_p_mw ea) (particles q' ! i) \<and>
             S (gen_p_mw eb) = Some (loading_percent eb, vm_pu eb)"
    by auto
qed

theorem evaluations_accumulate_on_network_witness:
  "wf_swarm example_swarm \<and>
   update (constant_solver [Fin 105] [Fin 1]) (constant_draws (1 / 2)) example_swarm example_net =
     Inr ([Fin (- (ln 2 / 8))], example_swarm_after, example_net_after) \<and>
   gen_p_mw example_net_after =
     foldl add_action (gen_p_mw example_net) (particles example_swarm_after) \<and>
   foldl add_action [Fin 0] [[Fin (- (ln 2 / 8))], [Fin (1 / 4 - 3 * ln 2 / 16)]]
     = [Fin (1 / 4 - 5 * ln 2 / 16)]"
  using evaluations_accumulate_on_network [OF example_update example_wf] example_wf
    example_update
  by (simp add: add_action_def)

section \<open>The position update\<close>

lemma new_position_nth:
  "d < n_dimensions q \<Longrightarrow>
   new_position R mb i q ! d =
     displaced (attractor (R (3 * n_dimensions q * i + n_dimensions q + d))
                  (pbest q ! i ! d) (gbest q ! d))
       (sign_of (R (3 * n_dimensions q * i + 2 * n_dimensions q + d))) (beta q) (mb ! d)
       (particles q ! i ! d) (R (3 * n_dimensions q * i + d))"
  by (simp add: new_position_def Let_def)

lemma mean_axis0_nth:
  "d < D \<Longrightarrow>
   mean_axis0 D P ! d = xdiv (xsum (map (\<lambda>row. row ! d) P)) (Fin (real (length P)))"
  by (simp add: mean_axis0_def)

lemma update_position:
  assumes "update S R q env = Inr (g, q', env')" and "i < n_particles q"
  obtains qa ea where "after_particles S R q env i = Inr (qa, ea)"
    and "particles q' ! i = new_position R (mean_axis0 (n_dimensions q) (pbest q)) i qa"
    and "particles qa ! i = particles q ! i" and "pbest qa = pbest q"
    and "beta qa = beta q" and "n_dimensions qa = n_dimensions q"
proof -
  from assms(1) have run: "after_particles S R q env (n_particles q) = Inr (q', env')"
    by (simp add: update_Inr)
  from after_particles_prefix [OF run, of "Suc i"] assms(2)
  obtain qb eb where b: "after_particles S R q env (Suc i) = Inr (qb, eb)" by auto
  from after_particles_prefix [OF run, of i] assms(2)
  obtain qa ea where a: "after_particles S R q env i = Inr (qa, ea)" by auto
  have "particles q' ! i = particles qb ! i"
    using after_particles_row_final [OF b run, of i] assms(2) by simp
  with turn_position(1) [OF a b]
  have "particles q' ! i = new_position R (mean_axis0 (n_dimensions q) (pbest q)) i qa"
    by simp
  moreover have "particles qa ! i = particles q ! i"
    using after_particles_rows [OF a] by simp
  ultimately show ?thesis
    using that [OF a] after_particles_frame [OF a] by simp
qed

section \<open>Finite values and magnitudes\<close>

lemma is_finite_iff: "is_finite x \<longleftrightarrow> (\<exists>a. x = Fin a)"
  by (cases x) simp_all

lemma foldl_xadd_finite:
  "list_all is_finite xs \<Longrightarrow> is_finite (foldl xadd (Fin a) xs)"
  by (induction xs arbitrary: a) (auto simp: is_finite_iff)

lemma mean_axis0_finite:
  assumes "list_all (list_all is_finite) P" and "rows_ok D P" and "P \<noteq> []" and "d < D"
  shows "is_finite (mean_axis0 D P ! d)"
proof -
  have "list_all is_finite (map (\<lambda>row. row ! d) P)"
    using assms(1,2,4) by (auto simp: list_all_iff rows_ok_def)
  then have "is_finite (xsum (map (\<lambda>row. row ! d) P))"
    by (simp add: xsum_def foldl_xadd_finite)
  then obtain a where "xsum (map (\<lambda>row. row ! d) P) = Fin a"
    by (auto simp: is_finite_iff)
  with assms(3,4) show ?thesis
    by (simp add: mean_axis0_nth)
qed

lemma attractor_finite: "is_finite pb \<Longrightarrow> is_finite gb \<Longrightarrow> is_finite (attractor phi pb gb)"
  by (auto simp: is_finite_iff attractor_def)











section \<open>The loop of the second script\<close>

lemma solve_loop_append:
  "solve_loop R b mb (xs @ ys) P =
     (case solve_loop R b mb xs P of Inl e \<Rightarrow> Inl e | Inr P' \<Rightarrow> solve_loop R b mb ys P')"
  by (induction xs arbitrary: P) (simp_all split: sum.splits)

lemma solve_loop_Suc:
  "solve_loop R b mb ([0..<k] @ [k]) P =
     (case solve_loop R b mb [0..<k] P of Inl e \<Rightarrow> Inl e | Inr P' \<Rightarrow> solve_particle R b mb k P')"
  by (simp add: solve_loop_append split: sum.splits)

lemma solve_particle_Inr:
  assumes "solve_particle R b mb i P = Inr P'"
  shows "i < length P" and "P' = P[i := solve_position R b mb i P]"
  using assms by (auto simp: solve_particle_def split: if_splits)

lemma solve_loop_prefix:
  assumes "solve_loop R b mb [0..<n] P = Inr Pn" and "k \<le> n"
  shows "\<exists>Pk. solve_loop R b mb [0..<k] P = Inr Pk"
  using assms
proof (induction n arbitrary: Pn)
  case 0
  then show ?case by simp
next
  case (Suc n)
  show ?case
  proof (cases "k = Suc n")
    case True
    with Suc.prems show ?thesis by blast
  next
    case False
    with Suc.prems have "k \<le> n" by simp
    moreover from Suc.prems(1) obtain P0 where "solve_loop R b mb [0..<n] P = Inr P0"
      by (auto simp: solve_loop_Suc split: sum.splits)
    ultimately show ?thesis using Suc.IH by blast
  qed
qed

lemma solve_loop_rows:
  "solve_loop R b mb [0..<k] P = Inr Pk \<Longrightarrow>
   length Pk = length P \<and> (\<forall>j. k \<le> j \<longrightarrow> Pk ! j = P ! j)"
proof (induction k arbitrary: Pk)
  case 0
  then show ?case by simp
next
  case (Suc k)
  from Suc.prems obtain P1 where st0: "solve_loop R b mb [0..<k] P = Inr P1"
    and turn: "solve_particle R b mb k P1 = Inr Pk"
    by (auto simp: solve_loop_Suc split: sum.splits)
  from solve_particle_Inr(2) [OF turn] Suc.IH [OF st0] show ?case
    by simp
qed

lemma solve_loop_row_final:
  assumes "solve_loop R b mb [0..<k] P = Inr Pk"
    and "solve_loop R b mb [0..<n] P = Inr Pn" and "j < k" and "k \<le> n"
  shows "Pn ! j = Pk ! j"
  using assms(2,4)
proof (induction n arbitrary: Pn)
  case 0
  with assms(3) show ?case by simp
next
  case (Suc n)
  show ?case
  proof (cases "k = Suc n")
    case True
    with Suc.prems assms(1) show ?thesis by simp
  next
    case False
    with Suc.prems have kn: "k \<le> n" by simp
    from Suc.prems(1) obtain P1 where st0: "solve_loop R b mb [0..<n] P = Inr P1"
      and turn: "solve_particle R b mb n P1 = Inr Pn"
      by (auto simp: solve_loop_Suc split: sum.splits)
    from solve_particle_Inr(2) [OF turn] Suc.IH [OF st0 kn] assms(3) kn show ?thesis
      by simp
  qed
qed

text \<open>
  \<open>solve\<close> has the displacement of \<open>update\<close>, with the particle's own position where
  \<open>update\<close> has \<open>pbest\<close>, the mean of the positions as \<open>mbest\<close>, and row 0 of the
  array, as it is at that moment, as \<open>gbest\<close>; the sign is 0 when the draw is 0.5.
\<close>

lemma solve_position_formula:
  assumes "solve R q = Inr (g, q')" and "i < 20" and "d < 54"
  shows "g = core_particles q' ! 0 \<and>
     core_particles q' ! i ! d =
       displaced
         (attractor (R (3 * 54 * i + 54 + d)) (core_particles q ! i ! d)
            (if i = 0 then core_particles q ! 0 ! d else core_particles q' ! 0 ! d))
         (core_sign (R (3 * 54 * i + 2 * 54 + d))) (core_beta q)
         (mean_axis0 54 (core_particles q) ! d) (core_particles q ! i ! d)
         (R (3 * 54 * i + d))"
proof -
  let ?b = "core_beta q" and ?mb = "mean_axis0 54 (core_particles q)"
  let ?P = "core_particles q"
  from assms(1) have run: "solve_loop R ?b ?mb [0..<20] ?P = Inr (core_particles q')"
    and g: "g = core_particles q' ! 0"
    by (auto simp: solve_def split: sum.splits)
  from solve_loop_prefix [OF run, of "Suc i"] assms(2)
  obtain Pb where b: "solve_loop R ?b ?mb [0..<Suc i] ?P = Inr Pb" by auto
  from solve_loop_prefix [OF run, of i] assms(2)
  obtain Pa where a: "solve_loop R ?b ?mb [0..<i] ?P = Inr Pa" by auto
  from a b have turn: "solve_particle R ?b ?mb i Pa = Inr Pb"
    by (simp add: solve_loop_Suc)
  have "core_particles q' ! i = Pb ! i"
    using solve_loop_row_final [OF b run, of i] assms(2) by simp
  with solve_particle_Inr [OF turn]
  have x: "core_particles q' ! i = solve_position R ?b ?mb i Pa" by simp
  have own: "Pa ! i = ?P ! i"
    using solve_loop_rows [OF a] by simp
  have first: "Pa ! 0 = (if i = 0 then ?P ! 0 else core_particles q' ! 0)"
  proof (cases "i = 0")
    case True
    with own show ?thesis by simp
  next
    case False
    then have "0 < i" by simp
    from solve_loop_row_final [OF a run this] assms(2) False show ?thesis by simp
  qed
  from x own first assms(3) g show ?thesis
    by (simp add: solve_position_def Let_def)
qed

lemma length_solve_position: "length (solve_position R b mb i P) = 54"
  by (simp add: solve_position_def Let_def)

lemma solve_loop_succeeds:
  "rows_ok 54 P \<Longrightarrow> k \<le> length P \<Longrightarrow>
   \<exists>Pk. solve_loop R b mb [0..<k] P = Inr Pk \<and> rows_ok 54 Pk \<and> length Pk = length P"
proof (induction k)
  case 0
  then show ?case by simp
next
  case (Suc k)
  then obtain Pk where Pk: "solve_loop R b mb [0..<k] P = Inr Pk" "rows_ok 54 Pk"
      "length Pk = length P"
    by auto
  with Suc.prems(2) show ?case
    by (simp add: solve_loop_Suc solve_particle_def rows_ok_update length_solve_position)
qed


section \<open>The position formula\<close>

lemma displaced_zero_factor:
  assumes "0 < u" and "is_finite s" and "is_finite mb" and "is_finite x"
  shows "displaced p s (Fin 0) mb x u = p"
proof -
  from assms(2-4) obtain c a b where "s = Fin c" "mb = Fin a" "x = Fin b"
    by (auto simp: is_finite_iff)
  with assms(1) show ?thesis
    by (cases p) (simp_all add: displaced_def xsub_def)
qed

lemma core_sign_finite: "is_finite (core_sign r)"
  by (simp add: core_sign_def)

text \<open>A step of \<open>solve\<close> with \<open>beta = 0\<close>: every particle moves to its local attractor.\<close>

lemma solve_beta_0:
  assumes shape: "length (core_particles c) = 20" "rows_ok 54 (core_particles c)"
    and fin: "list_all (list_all is_finite) (core_particles c)"
    and beta: "core_beta c = Fin 0"
    and draws: "\<forall>i < 20. \<forall>d < 54. 0 < R (3 * 54 * i + d)"
  shows "\<exists>g c'. solve R c = Inr (g, c') \<and> core_beta c' = Fin 0 \<and>
           length (core_particles c') = 20 \<and> rows_ok 54 (core_particles c') \<and>
           list_all (list_all is_finite) (core_particles c') \<and>
           (\<forall>i < 20. \<forall>d < 54.
              core_particles c' ! i ! d =
                attractor (R (3 * 54 * i + 54 + d)) (core_particles c ! i ! d)
                  (if i = 0 then core_particles c ! 0 ! d else core_particles c' ! 0 ! d))"
proof -
  let ?P = "core_particles c"
  let ?mb = "mean_axis0 54 ?P"
  from solve_loop_succeeds [OF shape(2), of 20 R "core_beta c" ?mb] shape(1)
  obtain Pn where run: "solve_loop R (core_beta c) ?mb [0..<20] ?P = Inr Pn"
    and ok: "rows_ok 54 Pn" "length Pn = 20"
    by auto
  then have s: "solve R c = Inr (Pn ! 0, c\<lparr>core_particles := Pn\<rparr>)"
    by (simp add: solve_def)
  have ne: "?P \<noteq> []" using shape(1) by auto
  have entry: "is_finite (?P ! i ! d)" if "i < 20" "d < 54" for i d
    using fin shape that by (auto simp: list_all_length rows_ok_def)
  have f: "Pn ! i ! d = attractor (R (3 * 54 * i + 54 + d)) (?P ! i ! d)
             (if i = 0 then ?P ! 0 ! d else Pn ! 0 ! d)"
    if i: "i < 20" and d: "d < 54" for i d
  proof -
    from s have "solve R c = Inr (Pn ! 0, c\<lparr>core_particles := Pn\<rparr>)" .
    from solve_position_formula [OF this i d] beta
      displaced_zero_factor [OF _ core_sign_finite mean_axis0_finite [OF fin shape(2) ne d]
        entry [OF i d]]
      draws i d
    show ?thesis by simp
  qed
  have fin0: "is_finite (Pn ! 0 ! d)" if "d < 54" for d
    using f [of 0 d] that entry [of 0 d] by (simp add: attractor_finite)
  have fin': "is_finite (Pn ! i ! d)" if "i < 20" "d < 54" for i d
    using f [OF that] that entry [OF that] entry [of 0 d] fin0 [OF that(2)]
    by (simp add: attractor_finite)
  have "list_all (list_all is_finite) Pn"
    using fin' ok by (auto simp: list_all_length rows_ok_def)
  with s ok f beta show ?thesis by simp
qed

lemma core_init_shape:
  "length (core_particles (core_init b U)) = 20"
  "rows_ok 54 (core_particles (core_init b U))"
  "list_all (list_all is_finite) (core_particles (core_init b U))"
  "core_beta (core_init b U) = b"
  "i < 20 \<Longrightarrow> d < 54 \<Longrightarrow> core_particles (core_init b U) ! i ! d = Fin (U (i * 54 + d))"
  by (simp_all add: core_init_def uniform_matrix_def rows_ok_def list_all_iff)

lemma core_position_Inr: "core_position (Inr (g, c)) i d = Some (core_particles c ! i ! d)"
  by (simp add: core_position_def)

lemma example_solve:
  obtains g1 c1 g2 c2 where
    "solve (constant_draws (1 / 2)) (core_init (Fin 0) spike_draws) = Inr (g1, c1)"
    and "solve (constant_draws (1 / 2)) c1 = Inr (g2, c2)"
    and "core_particles c1 ! 0 ! 0 = Fin 0" and "core_particles c1 ! 1 ! 0 = Fin (1 / 4)"
    and "core_particles c2 ! 0 ! 0 = Fin 0" and "core_particles c2 ! 1 ! 0 = Fin (1 / 8)"
proof -
  let ?R = "constant_draws (1 / 2)"
  let ?c = "core_init (Fin 0) spike_draws"
  have draws: "\<forall>i < 20. \<forall>d < 54. 0 < ?R (3 * 54 * i + d)"
    by (simp add: constant_draws_def)
  from solve_beta_0 [OF core_init_shape(1-4) draws]
  obtain g1 c1 where s1: "solve ?R ?c = Inr (g1, c1)" and b1: "core_beta c1 = Fin 0"
    and sh1: "length (core_particles c1) = 20" "rows_ok 54 (core_particles c1)"
      "list_all (list_all is_finite) (core_particles c1)"
    and f1: "\<forall>i < 20. \<forall>d < 54. core_particles c1 ! i ! d =
        attractor (?R (3 * 54 * i + 54 + d)) (core_particles ?c ! i ! d)
          (if i = 0 then core_particles ?c ! 0 ! d else core_particles c1 ! 0 ! d)"
    by blast
  from solve_beta_0 [OF sh1 b1 draws]
  obtain g2 c2 where s2: "solve ?R c1 = Inr (g2, c2)"
    and f2: "\<forall>i < 20. \<forall>d < 54. core_particles c2 ! i ! d =
        attractor (?R (3 * 54 * i + 54 + d)) (core_particles c1 ! i ! d)
          (if i = 0 then core_particles c1 ! 0 ! d else core_particles c2 ! 0 ! d)"
    by blast
  have a: "core_particles c1 ! 0 ! 0 = Fin 0"
    using f1 [rule_format, of 0 0]
    by (simp add: core_init_shape(5) attractor_def constant_draws_def spike_draws_def)
  have b: "core_particles c1 ! 1 ! 0 = Fin (1 / 4)"
    using f1 [rule_format, of 1 0] a
    by (simp add: core_init_shape(5) attractor_def constant_draws_def spike_draws_def)
  have c: "core_particles c2 ! 0 ! 0 = Fin 0"
    using f2 [rule_format, of 0 0] a
    by (simp add: attractor_def constant_draws_def)
  have d: "core_particles c2 ! 1 ! 0 = Fin (1 / 8)"
    using f2 [rule_format, of 1 0] b c
    by (simp add: attractor_def constant_draws_def)
  from s1 s2 a b c d show ?thesis by (rule that)
qed

text \<open>
  C4, counterexample. The class of the second script keeps no personal bests. Built with
  \<open>beta = 0\<close> and all positions 0 but the first component of particle 1, which is 0.5,
  a first call of \<open>solve\<close> (every draw 0.5) moves that component to its attractor 0.25,
  with row 0 staying 0. A second call computes the attractor from the moved position:
  \<open>0.5 * 0.25 + 0.5 * 0 = 0.125\<close>. With the personal best of the particle, which is
  its initial position 0.5 (no fitness is ever evaluated), the claimed formula gives
  \<open>0.5 * 0.5 + 0.5 * 0 = 0.25\<close>. The sign drawn with 0.5 is \<open>np.sign(0) = 0\<close>.
\<close>

theorem solve_second_step_counterexample:
  "core_particles (core_init (Fin 0) spike_draws) ! 1 ! 0 = Fin (1 / 2) \<and>
   core_particles (core_init (Fin 0) spike_draws) ! 0 ! 0 = Fin 0 \<and>
   core_position (solve (constant_draws (1 / 2)) (core_init (Fin 0) spike_draws)) 1 0
     = Some (Fin (1 / 4)) \<and>
   core_position (solve_twice (constant_draws (1 / 2)) (constant_draws (1 / 2))
                    (core_init (Fin 0) spike_draws)) 0 0
     = Some (Fin 0) \<and>
   core_position (solve_twice (constant_draws (1 / 2)) (constant_draws (1 / 2))
                    (core_init (Fin 0) spike_draws)) 1 0
     = Some (Fin (1 / 8)) \<and>
   attractor (constant_draws (1 / 2) (3 * 54 * 1 + 54 + 0)) (Fin (1 / 2)) (Fin 0) = Fin (1 / 4) \<and>
   core_sign (constant_draws (1 / 2) (3 * 54 * 1 + 2 * 54 + 0)) = Fin 0"
proof -
  obtain g1 c1 g2 c2 where
    "solve (constant_draws (1 / 2)) (core_init (Fin 0) spike_draws) = Inr (g1, c1)"
    and "solve (constant_draws (1 / 2)) c1 = Inr (g2, c2)"
    and "core_particles c1 ! 0 ! 0 = Fin 0" and "core_particles c1 ! 1 ! 0 = Fin (1 / 4)"
    and "core_particles c2 ! 0 ! 0 = Fin 0" and "core_particles c2 ! 1 ! 0 = Fin (1 / 8)"
    by (rule example_solve)
  then show ?thesis
    by (simp add: solve_twice_def core_position_def core_init_shape(5) spike_draws_def
        attractor_def constant_draws_def core_sign_def)
qed

text \<open>
  C4, as amended. A step of \<open>update\<close> first computes \<open>mbest\<close>, the mean over the
  particles of each component of their \<open>pbest\<close> vectors. Then, for particle \<open>i\<close> and
  dimension \<open>d\<close> with the drawn \<open>phi\<close>, \<open>u\<close> and sign \<open>s\<close>, it sets the new
  position to \<open>p + s * beta * |mbest - position| * ln(1/u)\<close>, where
  \<open>p = phi * pbest[i] + (1 - phi) * gbest\<close>; \<open>gbest\<close> is the global best as the
  particles before \<open>i\<close> have left it. A step of \<open>solve\<close>, which keeps no personal
  bests, computes the same expression with the positions that the particles have when the
  step begins in the place of \<open>pbest\<close>: \<open>mbest\<close> is their mean and
  \<open>p = phi * position + (1 - phi) * gbest\<close>; its \<open>gbest\<close> is row 0 of the position
  array as it is at that moment, which is also what it returns, and its sign is
  \<open>np.sign\<close> of the draw minus 0.5, which is 0 for the draw 0.5.
\<close>

theorem position_update_formula:
  "(update S R q env = Inr (g, q', env') \<and> i < n_particles q \<and> d < n_dimensions q \<longrightarrow>
      (\<exists>qa ea. after_particles S R q env i = Inr (qa, ea) \<and>
         (let D = n_dimensions q;
              u = R (3 * D * i + d);
              phi = R (3 * D * i + D + d);
              s = (if R (3 * D * i + 2 * D + d) > 1 / 2 then Fin 1 else Fin (- 1));
              mbest = xdiv (xsum (map (\<lambda>row. row ! d) (pbest q)))
                        (Fin (real (length (pbest q))));
              p = xadd (xmul (Fin phi) (pbest q ! i ! d)) (xmul (Fin (1 - phi)) (gbest qa ! d))
          in particles q' ! i ! d =
               xadd p (xmul (xmul (xmul s (beta q)) (xabs (xsub mbest (particles q ! i ! d))))
                            (xlog (xdiv (Fin 1) (Fin u))))))) \<and>
   (solve R c = Inr (h, c') \<and> i < 20 \<and> d < 54 \<longrightarrow>
      h = core_particles c' ! 0 \<and>
      (let u = R (3 * 54 * i + d);
           phi = R (3 * 54 * i + 54 + d);
           r = R (3 * 54 * i + 2 * 54 + d);
           s = (if 0 < r - 1 / 2 then Fin 1 else if r - 1 / 2 < 0 then Fin (- 1) else Fin 0);
           mbest = xdiv (xsum (map (\<lambda>row. row ! d) (core_particles c)))
                     (Fin (real (length (core_particles c))));
           gb = (if i = 0 then core_particles c ! 0 ! d else core_particles c' ! 0 ! d);
           p = xadd (xmul (Fin phi) (core_particles c ! i ! d)) (xmul (Fin (1 - phi)) gb)
       in core_particles c' ! i ! d =
            xadd p (xmul (xmul (xmul s (core_beta c))
                            (xabs (xsub mbest (core_particles c ! i ! d))))
                         (xlog (xdiv (Fin 1) (Fin u))))))"
proof (intro conjI impI)
  assume a: "update S R q env = Inr (g, q', env') \<and> i < n_particles q \<and> d < n_dimensions q"
  then obtain qa ea where qa: "after_particles S R q env i = Inr (qa, ea)"
    and x: "particles q' ! i = new_position R (mean_axis0 (n_dimensions q) (pbest q)) i qa"
    and fr: "particles qa ! i = particles q ! i" "pbest qa = pbest q"
      "beta qa = beta q" "n_dimensions qa = n_dimensions q"
    using update_position [of S R q env g q' env' i] by blast
  from a fr(4) have d: "d < n_dimensions qa" by simp
  from a have d': "d < n_dimensions q" by simp
  show "\<exists>qa ea. after_particles S R q env i = Inr (qa, ea) \<and>
         (let D = n_dimensions q;
              u = R (3 * D * i + d);
              phi = R (3 * D * i + D + d);
              s = (if R (3 * D * i + 2 * D + d) > 1 / 2 then Fin 1 else Fin (- 1));
              mbest = xdiv (xsum (map (\<lambda>row. row ! d) (pbest q)))
                        (Fin (real (length (pbest q))));
              p = xadd (xmul (Fin phi) (pbest q ! i ! d)) (xmul (Fin (1 - phi)) (gbest qa ! d))
          in particles q' ! i ! d =
               xadd p (xmul (xmul (xmul s (beta q)) (xabs (xsub mbest (particles q ! i ! d))))
                            (xlog (xdiv (Fin 1) (Fin u)))))"
    using qa x fr new_position_nth [OF d, of R "mean_axis0 (n_dimensions q) (pbest q)" i]
      mean_axis0_nth [OF d', of "pbest q"]
    by (simp add: Let_def displaced_def attractor_def sign_of_def)
next
  assume a: "solve R c = Inr (h, c') \<and> i < 20 \<and> d < 54"
  then have s: "solve R c = Inr (h, c')" and i: "i < 20" and d: "d < 54" by simp_all
  from solve_position_formula [OF s i d] show "h = core_particles c' ! 0" by simp
  from solve_position_formula [OF s i d] mean_axis0_nth [OF d, of "core_particles c"]
  show "let u = R (3 * 54 * i + d);
           phi = R (3 * 54 * i + 54 + d);
           r = R (3 * 54 * i + 2 * 54 + d);
           s = (if 0 < r - 1 / 2 then Fin 1 else if r - 1 / 2 < 0 then Fin (- 1) else Fin 0);
           mbest = xdiv (xsum (map (\<lambda>row. row ! d) (core_particles c)))
                     (Fin (real (length (core_particles c))));
           gb = (if i = 0 then core_particles c ! 0 ! d else core_particles c' ! 0 ! d);
           p = xadd (xmul (Fin phi) (core_particles c ! i ! d)) (xmul (Fin (1 - phi)) gb)
       in core_particles c' ! i ! d =
            xadd p (xmul (xmul (xmul s (core_beta c))
                            (xabs (xsub mbest (core_particles c ! i ! d))))
                         (xlog (xdiv (Fin 1) (Fin u))))"
    by (simp add: Let_def displaced_def attractor_def core_sign_def)
qed

theorem position_update_formula_witness:
  "update (constant_solver [Fin 105] [Fin 1]) (constant_draws (1 / 2)) example_swarm example_net =
     Inr ([Fin (- (ln 2 / 8))], example_swarm_after, example_net_after) \<and>
   particles example_swarm_after ! 1 ! 0 =
     xadd (xadd (xmul (Fin (1 / 2)) (Fin (1 / 2))) (xmul (Fin (1 - 1 / 2)) (Fin (- (ln 2 / 8)))))
       (xmul (xmul (xmul (Fin (- 1)) (Fin (1 / 2)))
                (xabs (xsub (xdiv (xsum [Fin 0, Fin (1 / 2)]) (Fin 2)) (Fin (1 / 2)))))
          (xlog (xdiv (Fin 1) (Fin (1 / 2))))) \<and>
   (case solve (constant_draws (1 / 2)) (core_init (Fin 0) spike_draws) of
      Inl e \<Rightarrow> False
    | Inr (h, c') \<Rightarrow> h = core_particles c' ! 0 \<and> core_particles c' ! 1 ! 0 = Fin (1 / 4))"
proof -
  obtain g1 c1 where s: "solve (constant_draws (1 / 2)) (core_init (Fin 0) spike_draws) = Inr (g1, c1)"
    and v: "core_particles c1 ! 1 ! 0 = Fin (1 / 4)"
    using example_solve by metis
  from position_update_formula [of "constant_solver [Fin 105] [Fin 1]" "constant_draws (1 / 2)"
      example_swarm example_net "[Fin (- (ln 2 / 8))]" example_swarm_after example_net_after 1 0
      "core_init (Fin 0) spike_draws" g1 c1] s
  have "g1 = core_particles c1 ! 0"
    and "particles example_swarm_after ! 1 ! 0 =
     xadd (xadd (xmul (Fin (1 / 2)) (Fin (1 / 2))) (xmul (Fin (1 - 1 / 2)) (Fin (- (ln 2 / 8)))))
       (xmul (xmul (xmul (Fin (- 1)) (Fin (1 / 2)))
                (xabs (xsub (xdiv (xsum [Fin 0, Fin (1 / 2)]) (Fin 2)) (Fin (1 / 2)))))
          (xlog (xdiv (Fin 1) (Fin (1 / 2)))))"
    using example_update example_after_1 by (simp_all add: Let_def constant_draws_def)
  with s v example_update show ?thesis by simp
qed

section \<open>A vanishing displacement\<close>





section \<open>Zero draws and bounded positions\<close>

text \<open>In both scripts a draw \<open>u = 0\<close> makes the component it is used for NaN or infinite.\<close>

lemma xmul_PInf_not_finite: "\<not> is_finite (xmul y PInf)"
  by (cases y) (simp_all add: signed_inf_def)

lemma xadd_not_finite: "\<not> is_finite z \<Longrightarrow> \<not> is_finite (xadd p z)"
  by (cases p; cases z) simp_all

lemma displaced_zero_draw: "\<not> is_finite (displaced p s b mb x 0)"
  by (simp add: displaced_def signed_inf_def xadd_not_finite xmul_PInf_not_finite)












end
